theory Spec2Isabelle
  imports Main "HOL-Library.Sublist"
begin

section \<open>Bytes, strings and errors\<close>

text \<open>
  A Go \<open>string\<close> is a sequence of bytes, and \<open>len\<close> and indexing count bytes. It is
  modelled as a HOL \<open>string\<close> (a list of 8-bit characters).

  Every error value and every run-time panic of \<open>mail.go\<close> is a constructor of \<open>error\<close>.
  The two \<open>Panic\<close> constructors stand for a run-time panic (the call does not return);
  the others are ordinary returned errors.
\<close>

datatype error =
    PanicIndexOutOfRange nat nat
  | PanicNilDereference
  | ErrSyntax string
  | ErrRange string
  | ErrNoFirstLine
  | ErrUnmatchedMailboxPath string
  | ErrScanNull
  | ErrDatabaseClosed
  | ErrBind
  | ErrNotExist string
  | ErrIO string
  | ErrMailboxNotFound string string

definition is_panic :: "error \<Rightarrow> bool" where
  "is_panic e = (case e of PanicIndexOutOfRange i n \<Rightarrow> True | PanicNilDereference \<Rightarrow> True | _ \<Rightarrow> False)"

text \<open>
  The conversion \<open>string(b)\<close> of a byte \<open>b\<close>: Go converts an integer to the UTF-8
  encoding of the code point with that number. Below 0x80 that is the byte itself; from
  0x80 to 0xFF it is the two bytes \<open>0xC0 | b >> 6\<close>, \<open>0x80 | b & 0x3F\<close>.
\<close>

definition is_ascii :: "char \<Rightarrow> bool" where
  "is_ascii c = ((of_char c :: nat) < 128)"

definition string_of_byte :: "char \<Rightarrow> string" where
  "string_of_byte b =
     (let n = (of_char b :: nat)
      in if n < 128 then [b]
         else [char_of (192 + n div 64), char_of (128 + n mod 64)])"

section \<open>The shard path of a row identifier\<close>

text \<open>
  \<^verbatim>\<open>
  func emlPathFromROWID(ROWID string) string {
      return fmt.Sprintf("%s/%s/%s/Messages/%s",
          string(ROWID[2]), string(ROWID[1]), string(ROWID[0]), ROWID)
  }
  \<close>
  The arguments are evaluated left to right, so \<open>ROWID[2]\<close> is read first, and an
  identifier of fewer than three bytes panics there with
  \<open>index out of range [2] with length n\<close>.
\<close>

definition emlPathFromROWID :: "string \<Rightarrow> error + string" where
  "emlPathFromROWID ROWID =
     (if length ROWID \<le> 2 then Inl (PanicIndexOutOfRange 2 (length ROWID))
      else Inr (string_of_byte (ROWID ! 2) @ ''/'' @ string_of_byte (ROWID ! 1) @ ''/''
                @ string_of_byte (ROWID ! 0) @ ''/Messages/'' @ ROWID))"

section \<open>The framing codec\<close>

subsection \<open>strconv.Atoi and bytes.Trim\<close>

definition is_digit :: "char \<Rightarrow> bool" where
  "is_digit c = (48 \<le> (of_char c :: nat) \<and> (of_char c :: nat) \<le> 57)"

definition digit_val :: "char \<Rightarrow> int" where
  "digit_val c = (of_char c :: int) - 48"

datatype num_error = Syntax | Range

text \<open>
  \<open>strconv.ParseUint(s, 10, 64)\<close> on a non-empty string: the digits are read left to
  right; a byte that is not a digit is a syntax error, a value that no longer fits 64
  bits a range error, whichever comes first.
\<close>

fun parse_uint :: "int \<Rightarrow> string \<Rightarrow> num_error + int" where
  "parse_uint n [] = Inr n"
| "parse_uint n (c # cs) =
     (if \<not> is_digit c then Inl Syntax
      else if n * 10 + digit_val c \<ge> 2 ^ 64 then Inl Range
      else parse_uint (n * 10 + digit_val c) cs)"

text \<open>
  \<open>strconv.Atoi\<close> on a 64-bit platform: an optional sign, then at least one digit; the
  value must lie in \<open>[-2^63, 2^63 - 1]\<close>. The error carries the whole input.
\<close>

definition Atoi :: "string \<Rightarrow> error + int" where
  "Atoi s =
     (case s of
        [] \<Rightarrow> Inl (ErrSyntax s)
      | c # cs \<Rightarrow>
          (let neg = (c = CHR ''-'');
               ds = (if c = CHR ''+'' \<or> c = CHR ''-'' then cs else s)
           in if ds = [] then Inl (ErrSyntax s)
              else (case parse_uint 0 ds of
                      Inl Syntax \<Rightarrow> Inl (ErrSyntax s)
                    | Inl Range \<Rightarrow> Inl (ErrRange s)
                    | Inr un \<Rightarrow>
                        if \<not> neg \<and> un \<ge> 2 ^ 63 then Inl (ErrRange s)
                        else if neg \<and> un > 2 ^ 63 then Inl (ErrRange s)
                        else Inr (if neg then - un else un))))"

text \<open>\<open>bytes.Trim(b, " ")\<close>: the leading and the trailing space characters removed.\<close>

definition Trim :: "string \<Rightarrow> string" where
  "Trim s = rev (dropWhile (\<lambda>c. c = CHR '' '') (rev (dropWhile (\<lambda>c. c = CHR '' '') s)))"

subsection \<open>Seekable streams and readers\<close>

text \<open>
  An \<open>io.ReadSeeker\<close> over a file: the file's bytes and the current read offset.
  A \<open>Read\<close> of at most \<open>n\<close> bytes returns the bytes from the offset on and advances it.
\<close>

record stream =
  content :: string
  offset :: nat

definition stream_Read :: "stream \<Rightarrow> nat \<Rightarrow> string \<times> stream" where
  "stream_Read s n =
     (let d = take n (drop (offset s) (content s))
      in (d, s\<lparr>offset := offset s + length d\<rparr>))"

text \<open>
  The \<open>io.Reader\<close> values \<open>stripEmlx\<close> returns: the stream itself, or
  \<open>io.LimitReader(r, n)\<close>, whose \<open>Read\<close> returns EOF once \<open>n \<le> 0\<close>, and otherwise
  cuts the request down to the \<open>n\<close> bytes left and counts what it read.
\<close>

datatype reader = FileReader stream | LimitedReader stream int

fun reader_Read :: "reader \<Rightarrow> nat \<Rightarrow> string \<times> reader" where
  "reader_Read (FileReader s) n = (let (d, s') = stream_Read s n in (d, FileReader s'))"
| "reader_Read (LimitedReader s N) n =
     (if N \<le> 0 then ([], LimitedReader s N)
      else (let (d, s') = stream_Read s (if int n > N then nat N else n)
            in (d, LimitedReader s' (N - int (length d)))))"

text \<open>A sequence of \<open>Read\<close> calls with the given buffer sizes; the bytes they return, in order.\<close>

fun read_seq :: "reader \<Rightarrow> nat list \<Rightarrow> string" where
  "read_seq r [] = []"
| "read_seq r (n # ns) = (let (d, r') = reader_Read r n in d @ read_seq r' ns)"

text \<open>\<open>io.ReadAll\<close>: everything the reader yields until EOF.\<close>

fun ReadAll :: "reader \<Rightarrow> string" where
  "ReadAll (FileReader s) = drop (offset s) (content s)"
| "ReadAll (LimitedReader s N) = take (nat N) (drop (offset s) (content s))"

subsection \<open>bufio.Scanner, first line\<close>

definition LF :: char where "LF = CHR 0x0A"
definition CR :: char where "CR = CHR 0x0D"

definition startBufSize :: nat where "startBufSize = 4096"
definition MaxScanTokenSize :: nat where "MaxScanTokenSize = 64 * 1024"

text \<open>\<open>dropCR\<close> of package bufio: a final carriage return is not part of the line.\<close>

definition dropCR :: "string \<Rightarrow> string" where
  "dropCR data = (if data \<noteq> [] \<and> last data = CR then butlast data else data)"

text \<open>
  The first \<open>Scan\<close> of a \<open>bufio.Scanner\<close> with the default split function
  \<open>ScanLines\<close>, on the bytes \<open>data\<close> the stream still holds. \<open>cap\<close> is the size of the
  scanner's buffer, which starts empty, becomes \<open>startBufSize\<close> and doubles up to
  \<open>MaxScanTokenSize\<close>; the buffer holds the first \<open>cap\<close> bytes of \<open>data\<close>.
  \<^item> a newline in the buffer ends the line: the token is the bytes before it;
  \<^item> end of file before the buffer is full: the rest is the last line, unless it is empty;
  \<^item> a full buffer of maximal size with no newline: \<open>ErrTooLong\<close>, there is no token;
  \<^item> otherwise the buffer grows and more is read.
  The result is the number of bytes read from the stream, and the token if there is one.
\<close>

function scan_fill :: "nat \<Rightarrow> string \<Rightarrow> nat \<times> string option" where
  "scan_fill cap data =
     (if LF \<in> set (take cap data)
        then (length (take cap data), Some (dropCR (takeWhile (\<lambda>c. c \<noteq> LF) data)))
      else if length data < cap
        then (length data, if data = [] then None else Some (dropCR data))
      else if cap \<ge> MaxScanTokenSize
        then (length (take cap data), None)
      else scan_fill (min (if cap = 0 then startBufSize else 2 * cap) MaxScanTokenSize) data)"
  by pat_completeness auto
termination
  by (relation "measure (\<lambda>(cap, data). MaxScanTokenSize - cap)")
     (auto simp: MaxScanTokenSize_def startBufSize_def)

declare scan_fill.simps [simp del]

text \<open>\<open>scanner.Scan()\<close> then \<open>scanner.Bytes()\<close>: the stream after the reads, and the line.\<close>

definition Scan :: "stream \<Rightarrow> stream \<times> string option" where
  "Scan s =
     (let (n, tok) = scan_fill 0 (drop (offset s) (content s))
      in (s\<lparr>offset := offset s + n\<rparr>, tok))"

subsection \<open>stripEmlx\<close>

text \<open>
  \<^verbatim>\<open>
  func stripEmlx(r io.ReadSeeker) (io.Reader, error) {
      scanner := bufio.NewScanner(r)
      if scanner.Scan() {
          original := scanner.Bytes()
          stringByteNum := bytes.Trim(original, " ")
          byteNum, err := strconv.Atoi(string(stringByteNum))
          if err != nil {
              return r, err
          }
          r.Seek(int64(len(original)+1), io.SeekStart)
          return io.LimitReader(r, int64(byteNum)), nil
      }
      return r, errors.New("couldnt find the first line")
  }
  \<close>
  Both results are returned as Go does: a reader (\<open>None\<close> is \<open>nil\<close>) and an error
  (\<open>None\<close> is \<open>nil\<close>). \<open>Seek\<close> with \<open>io.SeekStart\<close> sets the offset absolutely.
\<close>

definition stripEmlx :: "stream \<Rightarrow> reader option \<times> error option" where
  "stripEmlx r =
     (case Scan r of
        (r', None) \<Rightarrow> (Some (FileReader r'), Some ErrNoFirstLine)
      | (r', Some original) \<Rightarrow>
          (case Atoi (Trim original) of
             Inl err \<Rightarrow> (Some (FileReader r'), Some err)
           | Inr byteNum \<Rightarrow>
               (Some (LimitedReader (r'\<lparr>offset := length original + 1\<rparr>) byteNum), None)))"

text \<open>
  The first line as the scanner delivers it, whatever its length: the bytes before the
  first newline (all bytes, if there is none), without a final carriage return.
\<close>

definition first_line :: "string \<Rightarrow> string" where
  "first_line data = dropCR (takeWhile (\<lambda>c. c \<noteq> LF) data)"


section \<open>Paths and opening a message\<close>

subsection \<open>path.Clean and path.Join\<close>

text \<open>\<open>strings.Split(s, sep)\<close> for a one-byte separator: \<open>n + 1\<close> pieces for \<open>n\<close> separators.\<close>

fun split_on :: "char \<Rightarrow> string \<Rightarrow> string list" where
  "split_on sep [] = [[]]"
| "split_on sep (x # xs) =
     (if x = sep then [] # split_on sep xs
      else (case split_on sep xs of
              [] \<Rightarrow> [[x]]
            | y # ys \<Rightarrow> (x # y) # ys))"

fun join_slash :: "string list \<Rightarrow> string" where
  "join_slash [] = []"
| "join_slash [x] = x"
| "join_slash (x # y # ys) = x @ ''/'' @ join_slash (y # ys)"

text \<open>
  \<open>path.Clean\<close> works on the path's elements, the pieces between slashes, left to right,
  building the cleaned path \<open>out\<close>:
  \<^item> an empty element (a doubled slash) and \<open>.\<close> are dropped;
  \<^item> \<open>..\<close> removes the last element of \<open>out\<close> if there is one that is not itself a kept
    \<open>..\<close>; otherwise it is kept when the path is not rooted, and dropped when it is;
  \<^item> any other element is appended.
  A rooted path keeps its leading slash, and an empty result is \<open>.\<close>.
\<close>

definition clean_step :: "bool \<Rightarrow> string list \<Rightarrow> string \<Rightarrow> string list" where
  "clean_step rooted out e =
     (if e = [] \<or> e = ''.'' then out
      else if e = ''..'' then
        (if out \<noteq> [] \<and> last out \<noteq> ''..'' then butlast out
         else if \<not> rooted then out @ [''..'']
         else out)
      else out @ [e])"

definition path_Clean :: "string \<Rightarrow> string" where
  "path_Clean p =
     (if p = [] then ''.''
      else (let rooted = (hd p = CHR ''/'');
                out = foldl (clean_step rooted) [] (split_on (CHR ''/'') p)
            in if rooted then CHR ''/'' # join_slash out
               else if out = [] then ''.''
               else join_slash out))"

text \<open>
  \<open>path.Join\<close> (and \<open>filepath.Join\<close>, the same function where the separator is a
  slash): empty leading elements are ignored, the rest is joined with slashes and cleaned;
  with nothing but empty elements the result is the empty string.
\<close>

definition path_Join :: "string list \<Rightarrow> string" where
  "path_Join elem =
     (if concat elem = [] then []
      else path_Clean (join_slash (dropWhile (\<lambda>e. e = []) elem)))"

subsection \<open>Message.Open\<close>

text \<open>
  The file system as \<open>os.Open\<close> sees it: for every path, the bytes of the file there or
  the error of opening it. A freshly opened file is read from offset 0.
  \<open>os.IsNotExist\<close> holds of the file-does-not-exist error only.
\<close>

type_synonym filesystem = "string \<Rightarrow> error + string"

definition os_Open :: "filesystem \<Rightarrow> string \<Rightarrow> error + stream" where
  "os_Open fs name =
     (case fs name of
        Inl err \<Rightarrow> Inl err
      | Inr bytes \<Rightarrow> Inr \<lparr>content = bytes, offset = 0\<rparr>)"

definition os_IsNotExist :: "error \<Rightarrow> bool" where
  "os_IsNotExist err = (case err of ErrNotExist p \<Rightarrow> True | _ \<Rightarrow> False)"

record Message =
  pathWithoutExtension :: string

text \<open>
  \<^verbatim>\<open>
  func (m Message) Open() (io.Reader, error) {
      f1, err := os.Open(path.Join(m.pathWithoutExtension + ".emlx"))
      if err == nil {
          return stripEmlx(f1)
      }
      if !os.IsNotExist(err) {
          return nil, err
      }
      f2, err := os.Open(path.Join(m.pathWithoutExtension + ".partial.emlx"))
      if err == nil {
          return stripEmlx(f2)
      }
      return nil, err
  }
  \<close>
  The model returns the two results and, beside them, the paths handed to \<open>os.Open\<close>,
  in order.
\<close>

definition emlx_path :: "Message \<Rightarrow> string" where
  "emlx_path m = path_Join [pathWithoutExtension m @ ''.emlx'']"

definition partial_emlx_path :: "Message \<Rightarrow> string" where
  "partial_emlx_path m = path_Join [pathWithoutExtension m @ ''.partial.emlx'']"

definition Message_Open :: "filesystem \<Rightarrow> Message \<Rightarrow> (reader option \<times> error option) \<times> string list" where
  "Message_Open fs m =
     (case os_Open fs (emlx_path m) of
        Inr f1 \<Rightarrow> (stripEmlx f1, [emlx_path m])
      | Inl err \<Rightarrow>
          if \<not> os_IsNotExist err then ((None, Some err), [emlx_path m])
          else (case os_Open fs (partial_emlx_path m) of
                  Inr f2 \<Rightarrow> (stripEmlx f2, [emlx_path m, partial_emlx_path m])
                | Inl err2 \<Rightarrow> ((None, Some err2), [emlx_path m, partial_emlx_path m])))"

section \<open>Mailboxes and queries\<close>

subsection \<open>Accounts, mailboxes, the query specification\<close>

record Account =
  Name :: string
  UUID :: string

text \<open>
  \<open>Mailbox.Account\<close> is a pointer: \<open>None\<close> is \<open>nil\<close>. Field names are global in HOL,
  so the fields \<open>Name\<close> and \<open>Account\<close> of \<open>Mailbox\<close> are \<open>MailboxName\<close> and
  \<open>MailboxAccount\<close>, and the field \<open>Mailbox\<close> of \<open>MailboxQuery\<close> is \<open>QueryMailbox\<close>.
\<close>

record Mailbox =
  MailboxName :: string
  MailboxAccount :: "Account option"

text \<open>
  \<open>Mailbox.URL\<close> is \<open>fmt.Sprintf("imap://%s/%s", m.Account.UUID, m.Name)\<close>; with a nil
  account the field access panics.
\<close>

definition URL :: "Mailbox \<Rightarrow> error + string" where
  "URL m =
     (case MailboxAccount m of
        None \<Rightarrow> Inl PanicNilDereference
      | Some a \<Rightarrow> Inr (''imap://'' @ UUID a @ ''/'' @ MailboxName m))"

definition IsEmpty :: "Mailbox \<Rightarrow> bool" where
  "IsEmpty m = (MailboxAccount m = None \<or> MailboxName m = [])"

record MailboxQuery =
  QueryMailbox :: Mailbox
  BatchResults :: int

subsection \<open>The index database\<close>

text \<open>
  The two tables of the \<open>Envelope Index\<close> the query reads. \<open>ROWID\<close> is SQLite's 64-bit
  integer row id; \<open>messages.mailbox\<close> refers to \<open>mailboxes.ROWID\<close>; a column that may be
  \<open>NULL\<close> is an option. A closed database handle fails every query.
\<close>

record message_row =
  msg_ROWID :: int
  msg_date_received :: int
  msg_mailbox :: "int option"

record mailbox_row =
  mbx_ROWID :: int
  mbx_url :: "string option"

text \<open>A row of \<open>messages m LEFT JOIN mailboxes mbx ON m.mailbox = mbx.ROWID\<close>.\<close>

record joined_row =
  j_id :: int
  j_url :: "string option"
  j_date_received :: int

text \<open>
  The database is the two tables, whether the handle is closed, and the engine's order
  of result rows that \<open>ORDER BY\<close> leaves tied (\<open>tie_rank\<close>, smaller first).
\<close>

record database =
  messages :: "message_row list"
  mailboxes :: "mailbox_row list"
  closed :: bool
  tie_rank :: "joined_row \<Rightarrow> int"

text \<open>
  \<open>getMessages\<close>: every message with each mailbox row that matches, and a message with
  no matching mailbox once, its \<open>url\<close> being \<open>NULL\<close>.
\<close>

definition getMessages :: "database \<Rightarrow> joined_row list" where
  "getMessages d =
     concat (map (\<lambda>m.
        (let ms = filter (\<lambda>b. Some (mbx_ROWID b) = msg_mailbox m) (mailboxes d)
         in if ms = []
            then [\<lparr>j_id = msg_ROWID m, j_url = None, j_date_received = msg_date_received m\<rparr>]
            else map (\<lambda>b. \<lparr>j_id = msg_ROWID m, j_url = mbx_url b,
                            j_date_received = msg_date_received m\<rparr>) ms))
       (messages d))"

text \<open>
  The query text is \<open>getMessages\<close> followed by the clauses that \<open>Query\<close> appends, each
  with its placeholders; the bound values are given in order.
  \<^item> \<open>WHERE mbx.url = ?\<close> keeps the rows whose url is that text (\<open>NULL\<close> equals nothing);
  \<^item> \<open>ORDER BY m.date_received DESC\<close> sorts by descending date. SQLite leaves the order
    of rows with equal dates open: it is the engine's choice, which the model takes as a
    parameter \<open>tie\<close>, a rank on rows; among rows of equal date those of smaller rank
    come first, and rows equal in both keep their order;
  \<^item> \<open>LIMIT ? OFFSET ?\<close> skips \<open>offset\<close> rows and keeps \<open>limit\<close>; a negative limit is
    no limit, a negative offset is 0.
  A value list that does not fit the placeholders is a bind error.
\<close>

datatype clause = WhereUrlEq | OrderByDateReceivedDesc | LimitOffset

datatype sql_value = SqlText string | SqlInt int

fun run_clauses ::
  "(joined_row \<Rightarrow> int) \<Rightarrow> clause list \<Rightarrow> sql_value list \<Rightarrow> joined_row list \<Rightarrow> error + joined_row list" where
  "run_clauses tie [] [] rows = Inr rows"
| "run_clauses tie (WhereUrlEq # cs) (SqlText u # vs) rows =
     run_clauses tie cs vs (filter (\<lambda>r. j_url r = Some u) rows)"
| "run_clauses tie (OrderByDateReceivedDesc # cs) vs rows =
     run_clauses tie cs vs (sort_key (\<lambda>r. - j_date_received r) (sort_key tie rows))"
| "run_clauses tie (LimitOffset # cs) (SqlInt lim # SqlInt off # vs) rows =
     run_clauses tie cs vs
       (let rest = drop (nat off) rows in if lim < 0 then rest else take (nat lim) rest)"
| "run_clauses tie _ _ rows = Inl ErrBind"

definition db_Query :: "database \<Rightarrow> clause list \<Rightarrow> sql_value list \<Rightarrow> error + joined_row list" where
  "db_Query d query variables =
     (if closed d then Inl ErrDatabaseClosed
      else run_clauses (tie_rank d) query variables (getMessages d))"

subsection \<open>Scanning a row\<close>

text \<open>
  \<open>rows.Scan(&ROWID, &u)\<close> with two string destinations: the integer row id is
  formatted in decimal (\<open>strconv.FormatInt\<close>), a text url is copied, and a \<open>NULL\<close> url
  is the error \<open>converting NULL to string is unsupported\<close>.
\<close>

function digits_of :: "nat \<Rightarrow> string" where
  "digits_of n =
     (if n < 10 then [''0123456789'' ! n]
      else digits_of (n div 10) @ [''0123456789'' ! (n mod 10)])"
  by pat_completeness auto
termination
  by (relation "measure (\<lambda>n. n)") auto

declare digits_of.simps [simp del]

definition FormatInt :: "int \<Rightarrow> string" where
  "FormatInt i = (if i < 0 then CHR ''-'' # digits_of (nat (- i)) else digits_of (nat i))"

text \<open>
  The strings that name a row: an optional minus sign and decimal digits, as
  \<open>rows.Scan\<close> writes the integer \<open>ROWID\<close> column into the string field, with or without
  leading zeros (the comment in the source writes \<open>0447630\<close>).
\<close>

definition decimal_id :: "string \<Rightarrow> bool" where
  "decimal_id s =
     (case s of
        [] \<Rightarrow> False
      | c # cs \<Rightarrow> (c = CHR ''-'' \<or> is_digit c) \<and> list_all is_digit cs)"

definition rows_Scan :: "joined_row \<Rightarrow> error + string \<times> string" where
  "rows_Scan r = (case j_url r of None \<Rightarrow> Inl ErrScanNull | Some u \<Rightarrow> Inr (FormatInt (j_id r), u))"

subsection \<open>Mailboxes.Query\<close>

record Mailboxes =
  byAccountName :: "string \<Rightarrow> (string \<Rightarrow> Mailbox option) option"
  url2path :: "string \<Rightarrow> string option"
  db :: database

text \<open>
  \<^verbatim>\<open>
  func (m Mailboxes) Mailbox(account, name string) (Mailbox, error) {
      if mbx, ok := m.byAccountName[account][name]; ok {
          return mbx, nil
      }
      return Mailbox{}, errors.New(fmt.Sprintf("couldn't find mailbox '%s' for account '%s'", name, account))
  }
  \<close>
  Reading a missing account's map gives the nil map, and reading that gives \<open>ok = false\<close>.
\<close>

definition Mailboxes_Mailbox :: "Mailboxes \<Rightarrow> string \<Rightarrow> string \<Rightarrow> error + Mailbox" where
  "Mailboxes_Mailbox mboxes account name =
     (case byAccountName mboxes account of
        None \<Rightarrow> Inl (ErrMailboxNotFound name account)
      | Some boxes \<Rightarrow>
          (case boxes name of
             None \<Rightarrow> Inl (ErrMailboxNotFound name account)
           | Some mbx \<Rightarrow> Inr mbx))"

text \<open>
  \<open>url.Parse\<close> belongs to the standard library and is a parameter of the model: for a
  stored url it gives the \<open>Host\<close> and the \<open>Path\<close> of the parsed URL, or \<open>None\<close> when
  parsing fails. \<open>Query\<close> drops the parse error, so a failed parse leaves a nil \<open>*URL\<close>,
  and reading its \<open>Host\<close> panics.
\<close>

type_synonym url_parser = "string \<Rightarrow> (string \<times> string) option"

text \<open>
  The closure \<open>Query\<close> returns: the query it built (\<open>q_query\<close>), the values it
  closed over (\<open>mq\<close> as \<open>q_mq\<close>, the receiver \<open>m\<close> as \<open>q_m\<close>), and its own variable
  \<open>batchCount\<close>.
  \<^verbatim>\<open>
  func (m Mailboxes) Query(mq MailboxQuery) func() ([]Message, error) {
      query := getMessages
      if !mq.Mailbox.IsEmpty() {
          query += "\nWHERE mbx.url = ?"
      }
      query += "\nORDER BY m.date_received DESC"
      var batchCount int
      if mq.BatchResults > 0 {
          query += "\nLIMIT ? OFFSET ?"
      }
      return func() ([]Message, error) { ... }
  }
  \<close>
\<close>

record query_func =
  q_query :: "clause list"
  q_mq :: MailboxQuery
  q_m :: Mailboxes
  batchCount :: int

definition Query :: "Mailboxes \<Rightarrow> MailboxQuery \<Rightarrow> query_func" where
  "Query mboxes spec =
     \<lparr>q_query = (if \<not> IsEmpty (QueryMailbox spec) then [WhereUrlEq] else [])
              @ [OrderByDateReceivedDesc]
              @ (if BatchResults spec > 0 then [LimitOffset] else []),
      q_mq = spec, q_m = mboxes, batchCount = 0\<rparr>"

text \<open>Go's \<open>int\<close> is 64 bits wide here: a product wraps around.\<close>

definition wrap64 :: "int \<Rightarrow> int" where
  "wrap64 x = signed_take_bit 63 x"

text \<open>
  The body of the closure, in three steps.
  \<^verbatim>\<open>
      var variables []interface{}
      var msgs []Message
      if !mq.Mailbox.IsEmpty() {
          variables = append(variables, mq.Mailbox.URL())
      }
      if mq.BatchResults > 0 {
          variables = append(variables, mq.BatchResults, batchCount*mq.BatchResults)
      }
      rows, err := m.db.Query(query, variables...)
      if err != nil {
          return nil, err
      }
  \<close>
\<close>

definition variables_of :: "query_func \<Rightarrow> error + sql_value list" where
  "variables_of q =
     (case (if \<not> IsEmpty (QueryMailbox (q_mq q))
            then (case URL (QueryMailbox (q_mq q)) of Inl e \<Rightarrow> Inl e | Inr u \<Rightarrow> Inr [SqlText u])
            else Inr []) of
        Inl e \<Rightarrow> Inl e
      | Inr vs \<Rightarrow>
          Inr (vs @ (if BatchResults (q_mq q) > 0
                     then [SqlInt (BatchResults (q_mq q)),
                           SqlInt (wrap64 (batchCount q * BatchResults (q_mq q)))]
                     else [])))"

definition fetch_rows :: "query_func \<Rightarrow> error + joined_row list" where
  "fetch_rows q =
     (case variables_of q of
        Inl e \<Rightarrow> Inl e
      | Inr vs \<Rightarrow> db_Query (db (q_m q)) (q_query q) vs)"

text \<open>
  \<^verbatim>\<open>
      for rows.Next() {
          var ROWID, u string
          if err := rows.Scan(&ROWID, &u); err != nil {
              return nil, err
          }
          MailboxURL, _ := url.Parse(u)
          relativePath := MailboxURL.Host + MailboxURL.Path
          basePath, ok := m.url2path[relativePath]
          if !ok {
              return nil, fmt.Errorf("unmatched mailbox path: %s", relativePath)
          }
          msgs = append(msgs, Message{
              pathWithoutExtension: path.Join(basePath, emlPathFromROWID(ROWID)),
          })
      }
      return msgs, nil
  \<close>
  One turn of the loop is \<open>row_Message\<close>; the loop stops at the first row that fails.
\<close>

definition row_Message :: "url_parser \<Rightarrow> Mailboxes \<Rightarrow> joined_row \<Rightarrow> error + Message" where
  "row_Message parse mboxes r =
     (case rows_Scan r of
        Inl err \<Rightarrow> Inl err
      | Inr (ROWID, u) \<Rightarrow>
          (case parse u of
             None \<Rightarrow> Inl PanicNilDereference
           | Some (host, path) \<Rightarrow>
               (let relativePath = host @ path
                in case url2path mboxes relativePath of
                     None \<Rightarrow> Inl (ErrUnmatchedMailboxPath relativePath)
                   | Some basePath \<Rightarrow>
                       (case emlPathFromROWID ROWID of
                          Inl e \<Rightarrow> Inl e
                        | Inr p \<Rightarrow> Inr \<lparr>pathWithoutExtension = path_Join [basePath, p]\<rparr>))))"

fun rows_loop :: "url_parser \<Rightarrow> Mailboxes \<Rightarrow> joined_row list \<Rightarrow> Message list \<Rightarrow> error + Message list" where
  "rows_loop parse mboxes [] msgs = Inr msgs"
| "rows_loop parse mboxes (r # rs) msgs =
     (case row_Message parse mboxes r of
        Inl err \<Rightarrow> Inl err
      | Inr msg \<Rightarrow> rows_loop parse mboxes rs (msgs @ [msg]))"

text \<open>
  One call of the closure: its result, and the closure afterwards. The closure body
  never assigns to \<open>batchCount\<close>, so the closure is returned as it was.
\<close>

definition invoke :: "url_parser \<Rightarrow> query_func \<Rightarrow> query_func \<times> (error + Message list)" where
  "invoke parse q =
     (q, case fetch_rows q of
           Inl err \<Rightarrow> Inl err
         | Inr rows \<Rightarrow> rows_loop parse (q_m q) rows [])"

text \<open>
  A stand-in for \<open>url.Parse\<close> on the plain urls \<open>imap://host/path\<close> of the examples
  (no escapes, user or port): the host is what follows \<open>imap://\<close> up to the next slash,
  the path is the rest. It is used to run examples only.
\<close>

definition imap_Parse :: url_parser where
  "imap_Parse u =
     (if take 7 u = ''imap://''
      then Some (takeWhile (\<lambda>c. c \<noteq> CHR ''/'') (drop 7 u), dropWhile (\<lambda>c. c \<noteq> CHR ''/'') (drop 7 u))
      else None)"

section \<open>The path resolver\<close>

subsection \<open>strings.Replace and filePathToURL\<close>

text \<open>
  \<open>strings.Replace(s, old, "", -1)\<close>: every occurrence of \<open>old\<close> is removed, found left
  to right without overlap; what remains is not searched again. With an empty \<open>old\<close>
  the string is returned as it is (\<open>old == new\<close>).
\<close>

function remove_all :: "string \<Rightarrow> string \<Rightarrow> string" where
  "remove_all old s =
     (if old = [] then s
      else if prefix old s then remove_all old (drop (length old) s)
      else (case s of [] \<Rightarrow> [] | c # cs \<Rightarrow> c # remove_all old cs))"
  by pat_completeness auto
termination
  by (relation "measure (\<lambda>(old, s). length s)") (auto simp: prefix_def)

declare remove_all.simps [simp del]

text \<open>
  \<^verbatim>\<open>
  func filePathToURL(rootPath, path string) string {
      sanitized := strings.Replace(path, rootPath, "", -1)
      sanitized = strings.Replace(sanitized, ".mbox", "", -1)
      return sanitized
  }
  \<close>
\<close>

definition filePathToURL :: "string \<Rightarrow> string \<Rightarrow> string" where
  "filePathToURL rootPath path = remove_all ''.mbox'' (remove_all rootPath path)"

subsection \<open>The directory tree and the walk\<close>

text \<open>
  The tree under the walk's root. An entry is
  \<^item> a file: any entry that is not a directory and that \<open>os.Stat\<close> finds (a regular
    file, or a symbolic link whose target exists; \<open>WalkDir\<close> does not follow links);
  \<^item> a broken link: a symbolic link whose target does not exist, so that \<open>os.Stat\<close>
    fails on it;
  \<^item> a directory, with its entries in the order \<open>os.ReadDir\<close> lists them;
  \<^item> a directory that cannot be listed, with the error of listing it (nothing inside it
    can be examined either).
\<close>

datatype node = File | BrokenLink | Dir "(string \<times> node) list" | Unreadable error

text \<open>
  The two maps of \<open>gatherMboxPaths\<close>: \<open>paths\<close>, the result, and \<open>mboxPaths\<close>, used as the
  set of marked directories. Go leaves the order of \<open>range\<close> over a map open; the model
  keeps the marked paths in a list without repetition and goes through it in order.
\<close>

record walk_state =
  paths :: "string \<Rightarrow> string option"
  mboxPaths :: "string list"

text \<open>
  \<^verbatim>\<open>
  for p := range mboxPaths {
      if strings.HasPrefix(path, p) {
          if strings.Replace(path, string(os.PathSeparator)+d.Name(), "", -1) == p {
              paths[filePathToURL(rootPath, p)] = path + string(os.PathSeparator) + "Data"
          }
      }
  }
  \<close>
\<close>

fun range_mboxPaths :: "string \<Rightarrow> string \<Rightarrow> string \<Rightarrow> string list
    \<Rightarrow> (string \<Rightarrow> string option) \<Rightarrow> (string \<Rightarrow> string option)" where
  "range_mboxPaths rootPath path name [] ps = ps"
| "range_mboxPaths rootPath path name (p # rest) ps =
     range_mboxPaths rootPath path name rest
       (if prefix p path \<and> remove_all (''/'' @ name) path = p
        then ps(filePathToURL rootPath p \<mapsto> path @ ''/'' @ ''Data'')
        else ps)"

text \<open>What the callback returns: \<open>nil\<close>, \<open>filepath.SkipDir\<close> or an error.\<close>

datatype action = Continue | SkipDir | Abort error

text \<open>
  The callback handed to \<open>filepath.WalkDir\<close>, for the entry \<open>d\<close> at \<open>path\<close>: \<open>name\<close> is
  \<open>d.Name()\<close>, \<open>isDir\<close> is \<open>d.IsDir()\<close>, \<open>plist\<close> says whether \<open>os.Stat\<close> finds
  \<open>Info.plist\<close> in the directory, and \<open>err\<close> is the error \<open>WalkDir\<close> reports.
  \<^verbatim>\<open>
  func(path string, d os.DirEntry, err error) error {
      if err != nil {
          return err
      }
      if d.IsDir() {
          if d.Name() == "Data" || d.Name() == "MailData" {
              return filepath.SkipDir
          }
          for p := range mboxPaths { ... }
          plistPath := filepath.Join(path, "Info.plist")
          _, err := os.Stat(plistPath)
          if err == nil {
              mboxPaths[path] = true
              return nil // allow it to descend a bit
          }
      }
      return nil
  }
  \<close>
\<close>

definition walker :: "string \<Rightarrow> walk_state \<Rightarrow> string \<Rightarrow> string \<Rightarrow> bool \<Rightarrow> bool \<Rightarrow> error option
    \<Rightarrow> walk_state \<times> action" where
  "walker rootPath st path name isDir plist err =
     (case err of
        Some e \<Rightarrow> (st, Abort e)
      | None \<Rightarrow>
          if isDir then
            (if name = ''Data'' \<or> name = ''MailData'' then (st, SkipDir)
             else (let st1 = st\<lparr>paths := range_mboxPaths rootPath path name (mboxPaths st) (paths st)\<rparr>
                   in if plist then (st1\<lparr>mboxPaths := List.insert path (mboxPaths st1)\<rparr>, Continue)
                      else (st1, Continue)))
          else (st, Continue))"

text \<open>
  \<open>os.Stat(filepath.Join(path, "Info.plist"))\<close> succeeds when the directory has an entry
  of that name, unless the entry is a broken link.
\<close>

definition has_plist :: "(string \<times> node) list \<Rightarrow> bool" where
  "has_plist entries =
     (case map_of entries ''Info.plist'' of
        None \<Rightarrow> False
      | Some t \<Rightarrow> t \<noteq> BrokenLink)"

text \<open>
  \<open>filepath.WalkDir\<close>'s recursion \<open>walkDir\<close>: the callback is called for the entry; a
  directory it does not skip is listed, and its entries are walked in order, each at
  \<open>filepath.Join(path, name)\<close>. A listing that fails is reported to the callback in a
  second call. \<open>SkipDir\<close> from a directory ends that directory only; \<open>SkipDir\<close> from
  another entry ends the rest of its parent; an error ends the walk.
\<close>

fun walkDir :: "string \<Rightarrow> walk_state \<Rightarrow> string \<Rightarrow> string \<Rightarrow> node \<Rightarrow> walk_state \<times> action"
  and walkEntries :: "string \<Rightarrow> walk_state \<Rightarrow> string \<Rightarrow> (string \<times> node) list \<Rightarrow> walk_state \<times> action"
where
  "walkDir rootPath st path name File = walker rootPath st path name False False None"
| "walkDir rootPath st path name BrokenLink = walker rootPath st path name False False None"
| "walkDir rootPath st path name (Dir entries) =
     (case walker rootPath st path name True (has_plist entries) None of
        (st', SkipDir) \<Rightarrow> (st', Continue)
      | (st', Abort e) \<Rightarrow> (st', Abort e)
      | (st', Continue) \<Rightarrow> walkEntries rootPath st' path entries)"
| "walkDir rootPath st path name (Unreadable e) =
     (case walker rootPath st path name True False None of
        (st', SkipDir) \<Rightarrow> (st', Continue)
      | (st', Abort e') \<Rightarrow> (st', Abort e')
      | (st', Continue) \<Rightarrow>
          (case walker rootPath st' path name True False (Some e) of
             (st'', SkipDir) \<Rightarrow> (st'', Continue)
           | (st'', a) \<Rightarrow> (st'', a)))"
| "walkEntries rootPath st path [] = (st, Continue)"
| "walkEntries rootPath st path ((name, child) # rest) =
     (case walkDir rootPath st (path_Join [path, name]) name child of
        (st', SkipDir) \<Rightarrow> (st', Continue)
      | (st', Abort e) \<Rightarrow> (st', Abort e)
      | (st', Continue) \<Rightarrow> walkEntries rootPath st' path rest)"

text \<open>
  \<^verbatim>\<open>
  func gatherMboxPaths() (map[string]string, error) {
      paths := map[string]string{}
      mboxPaths := map[string]bool{}
      walker := func(rootPath string) error { return filepath.WalkDir(rootPath, ...) }
      err := walker(fmt.Sprintf("%s/Library/Mail/V10/", homeDir))
      if err != nil {
          return paths, err
      }
      return paths, nil
  }
  \<close>
  The home directory and the tree at the root are arguments; a root that does not exist
  is \<open>None\<close>, and \<open>WalkDir\<close> then reports the error of \<open>os.Lstat\<close> to the callback. The
  name of the root entry is the last element of the root path, and \<open>WalkDir\<close> turns a
  final \<open>SkipDir\<close> into \<open>nil\<close>.
\<close>

definition V10 :: "string \<Rightarrow> string" where
  "V10 homeDir = homeDir @ ''/Library/Mail/V10/''"

definition gatherMboxPaths :: "string \<Rightarrow> node option \<Rightarrow> (string \<Rightarrow> string option) \<times> error option" where
  "gatherMboxPaths homeDir root =
     (let rootPath = V10 homeDir;
          st0 = \<lparr>paths = Map.empty, mboxPaths = []\<rparr>;
          (st, a) = (case root of
                       None \<Rightarrow> walker rootPath st0 rootPath ''V10'' False False (Some (ErrNotExist rootPath))
                     | Some t \<Rightarrow> walkDir rootPath st0 rootPath ''V10'' t)
      in (paths st, case a of Abort e \<Rightarrow> Some e | _ \<Rightarrow> None))"



section \<open>Sample data\<close>

text \<open>
  A store for examples: two mailboxes in the index, \<open>imap://U/INBOX\<close> (row 1), which
  the path map resolves, and \<open>imap://U/Gone\<close> (row 2), which it does not; the messages
  are given. \<open>no_filter n\<close> is the query specification with no mailbox and batch size \<open>n\<close>.
\<close>

definition sample_Mailboxes :: "message_row list \<Rightarrow> Mailboxes" where
  "sample_Mailboxes msgs =
     \<lparr>byAccountName = (\<lambda>a. None),
      url2path = [''U/INBOX'' \<mapsto> ''/V10/U/INBOX.mbox/D/Data''],
      db = \<lparr>messages = msgs,
            mailboxes = [\<lparr>mbx_ROWID = 1, mbx_url = Some ''imap://U/INBOX''\<rparr>,
                         \<lparr>mbx_ROWID = 2, mbx_url = Some ''imap://U/Gone''\<rparr>],
            closed = False,
            tie_rank = (\<lambda>r. 0)\<rparr>\<rparr>"

definition no_filter :: "int \<Rightarrow> MailboxQuery" where
  "no_filter n = \<lparr>QueryMailbox = \<lparr>MailboxName = [], MailboxAccount = None\<rparr>, BatchResults = n\<rparr>"

text \<open>Five messages of the inbox, stored in no particular order.\<close>

definition five_messages :: "message_row list" where
  "five_messages =
     [\<lparr>msg_ROWID = 447632, msg_date_received = 300, msg_mailbox = Some 1\<rparr>,
      \<lparr>msg_ROWID = 447630, msg_date_received = 500, msg_mailbox = Some 1\<rparr>,
      \<lparr>msg_ROWID = 447634, msg_date_received = 100, msg_mailbox = Some 1\<rparr>,
      \<lparr>msg_ROWID = 447631, msg_date_received = 400, msg_mailbox = Some 1\<rparr>,
      \<lparr>msg_ROWID = 447633, msg_date_received = 200, msg_mailbox = Some 1\<rparr>]"

section \<open>Properties of the shard path\<close>

lemma string_of_byte_ascii: "is_ascii b \<Longrightarrow> string_of_byte b = [b]"
  by (simp add: string_of_byte_def is_ascii_def)

lemma string_of_byte_high: "\<not> is_ascii b \<Longrightarrow> length (string_of_byte b) = 2"
  by (simp add: string_of_byte_def is_ascii_def Let_def)

lemma string_of_byte_E9: "string_of_byte (CHR 0xE9) = [CHR 0xC3, CHR 0xA9]"
  by (simp add: string_of_byte_def char_of_def bit_iff_odd)

text \<open>
  C10. \<open>emlPathFromROWID\<close> reads the bytes 0, 1 and 2 of the identifier with no guard on
  its length: it returns a path exactly when the identifier has at least three bytes, and
  panics (index out of range) exactly when it is shorter.
\<close>

theorem emlPathFromROWID_defined_iff:
  "((\<exists>p. emlPathFromROWID ROWID = Inr p) = (3 \<le> length ROWID)) \<and>
   ((\<exists>e. emlPathFromROWID ROWID = Inl e \<and> is_panic e) = (length ROWID < 3)) \<and>
   ((emlPathFromROWID ROWID = Inl (PanicIndexOutOfRange 2 (length ROWID))) = (length ROWID < 3))"
  by (auto simp: emlPathFromROWID_def is_panic_def)

lemma emlPathFromROWID_ascii:
  assumes "3 \<le> length ROWID"
    and "is_ascii (ROWID ! 0)" and "is_ascii (ROWID ! 1)" and "is_ascii (ROWID ! 2)"
  shows "emlPathFromROWID ROWID =
           Inr ([ROWID ! 2] @ ''/'' @ [ROWID ! 1] @ ''/'' @ [ROWID ! 0] @ ''/Messages/'' @ ROWID)"
  using assms by (simp add: emlPathFromROWID_def string_of_byte_ascii)

lemma is_digit_ascii: "is_digit c \<Longrightarrow> is_ascii c"
  by (simp add: is_digit_def is_ascii_def)

lemma digit_table: "k < 10 \<Longrightarrow> is_digit (''0123456789'' ! k)"
proof -
  have "\<forall>k<10. is_digit (''0123456789'' ! k)"
    by (simp add: is_digit_def All_less_Suc eval_nat_numeral)
  then show "k < 10 \<Longrightarrow> is_digit (''0123456789'' ! k)" by blast
qed

lemma digits_of_digits: "digits_of n \<noteq> [] \<and> list_all is_digit (digits_of n)"
proof (induction n rule: digits_of.induct)
  case (1 n)
  show ?case
  proof (cases "n < 10")
    case True
    then show ?thesis
      by (subst (1 2) digits_of.simps) (simp add: digit_table)
  next
    case False
    with "1.IH" show ?thesis
      by (subst (1 2) digits_of.simps) (simp add: digit_table)
  qed
qed

lemma FormatInt_decimal_id: "decimal_id (FormatInt i)"
proof (cases "i < 0")
  case True
  then show ?thesis
    using digits_of_digits [of "nat (- i)"] by (simp add: FormatInt_def decimal_id_def)
next
  case False
  obtain c cs where d: "digits_of (nat i) = c # cs"
    using digits_of_digits [of "nat i"] by (cases "digits_of (nat i)") auto
  with False digits_of_digits [of "nat i"] show ?thesis
    by (simp add: FormatInt_def decimal_id_def)
qed

lemma decimal_id_ascii:
  assumes "decimal_id s" and "k < length s"
  shows "is_ascii (s ! k)"
proof -
  from assms(1) obtain c cs where s: "s = c # cs" and c: "c = CHR ''-'' \<or> is_digit c"
    and cs: "list_all is_digit cs"
    by (cases s) (auto simp: decimal_id_def)
  show ?thesis
  proof (cases k)
    case 0
    from c have "is_ascii c"
    proof
      assume "c = CHR ''-''"
      then show ?thesis by (simp add: is_ascii_def)
    next
      assume "is_digit c"
      then show ?thesis by (rule is_digit_ascii)
    qed
    with s 0 show ?thesis by simp
  next
    case (Suc j)
    with s assms(2) cs have "is_digit (s ! k)" by (simp add: list_all_length)
    then show ?thesis by (rule is_digit_ascii)
  qed
qed

text \<open>
  C5. For every row identifier of at least three characters the result is the character
  at position 2, a slash, the character at position 1, a slash, the character at
  position 0, then \<open>/Messages/\<close> and the identifier itself. A row identifier is a decimal
  numeral (\<open>decimal_id\<close>); the only caller passes \<open>FormatInt\<close> of the row's integer, which
  is one (\<open>FormatInt_decimal_id\<close>). The identifier is never read as a number: the leading
  zero of \<open>0447630\<close> stays, and the result is \<open>4/4/0/Messages/0447630\<close>.
\<close>

theorem emlPathFromROWID_shard:
  assumes "decimal_id ROWID" and "3 \<le> length ROWID"
  shows "emlPathFromROWID ROWID =
           Inr ([ROWID ! 2] @ ''/'' @ [ROWID ! 1] @ ''/'' @ [ROWID ! 0] @ ''/Messages/'' @ ROWID)"
proof -
  have a0: "is_ascii (ROWID ! 0)" using assms(2) by (intro decimal_id_ascii [OF assms(1)]) auto
  have a1: "is_ascii (ROWID ! 1)" using assms(2) by (intro decimal_id_ascii [OF assms(1)]) simp
  have a2: "is_ascii (ROWID ! 2)" using assms(2) by (intro decimal_id_ascii [OF assms(1)]) simp
  show ?thesis
    using assms(2) a0 a1 a2 by (rule emlPathFromROWID_ascii)
qed

theorem emlPathFromROWID_shard_witness:
  "decimal_id ''0447630'' \<and> 3 \<le> length ''0447630''
   \<and> emlPathFromROWID ''0447630'' = Inr ''4/4/0/Messages/0447630''"
proof -
  have d: "decimal_id ''0447630''" by (simp add: decimal_id_def is_digit_def)
  have l: "3 \<le> length ''0447630''" by simp
  from emlPathFromROWID_shard [OF d l] d l show ?thesis by simp
qed

section \<open>Properties of the framing codec\<close>

subsection \<open>The scanner, Atoi and the readers\<close>

lemma scan_fill_token:
  "cap \<le> MaxScanTokenSize \<Longrightarrow>
   snd (scan_fill cap data) =
     (if LF \<in> set (take MaxScanTokenSize data) then Some (first_line data)
      else if length data < MaxScanTokenSize \<and> data \<noteq> [] then Some (first_line data)
      else None)"
proof (induction cap data rule: scan_fill.induct)
  case (1 cap data)
  show ?case
  proof (cases "LF \<in> set (take cap data)")
    case True
    then have "LF \<in> set (take MaxScanTokenSize data)"
      using "1.prems" set_take_subset_set_take by fastforce
    with True show ?thesis
      by (subst scan_fill.simps) (simp add: first_line_def)
  next
    case noLF: False
    show ?thesis
    proof (cases "length data < cap")
      case True
      then have td: "take cap data = data" "take MaxScanTokenSize data = data"
        using "1.prems" by simp_all
      with noLF have "LF \<notin> set data" by simp
      then have "takeWhile (\<lambda>c. c \<noteq> LF) data = data"
        by auto
      then have fl: "first_line data = dropCR data"
        by (simp only: first_line_def)
      have "scan_fill cap data = (length data, if data = [] then None else Some (dropCR data))"
        using noLF True by (subst scan_fill.simps) simp
      moreover have "length data < MaxScanTokenSize"
        using True "1.prems" by simp
      moreover have "LF \<notin> set (take MaxScanTokenSize data)"
        using noLF td by simp
      ultimately show ?thesis
        using fl by simp
    next
      case long: False
      show ?thesis
      proof (cases "cap \<ge> MaxScanTokenSize")
        case True
        with "1.prems" have "cap = MaxScanTokenSize" by simp
        with noLF long show ?thesis
          by (subst scan_fill.simps) simp
      next
        case False
        have "min (if cap = 0 then startBufSize else 2 * cap) MaxScanTokenSize \<le> MaxScanTokenSize"
          by simp
        from "1.IH" [OF noLF long False this] noLF long False show ?thesis
          by (subst scan_fill.simps) simp
      qed
    qed
  qed
qed

lemma scan_fill_read: "fst (scan_fill cap data) \<le> length data"
proof (induction cap data rule: scan_fill.induct)
  case (1 cap data)
  then show ?case
    by (subst scan_fill.simps) (simp add: Let_def)
qed

lemma parse_uint_digits: "parse_uint n ds = Inr v \<Longrightarrow> list_all is_digit ds"
  by (induction ds arbitrary: n) (auto split: if_splits)

lemma Atoi_Inr_parse:
  assumes "Atoi t = Inr N"
  shows "\<exists>c cs v. t = c # cs \<and> (if c = CHR ''+'' \<or> c = CHR ''-'' then cs else t) \<noteq> []
           \<and> parse_uint 0 (if c = CHR ''+'' \<or> c = CHR ''-'' then cs else t) = Inr v"
proof (cases t)
  case Nil
  with assms show ?thesis by (simp add: Atoi_def)
next
  case (Cons c cs)
  define ds where "ds = (if c = CHR ''+'' \<or> c = CHR ''-'' then cs else t)"
  have A: "Atoi t = (if ds = [] then Inl (ErrSyntax t)
              else (case parse_uint 0 ds of
                      Inl Syntax \<Rightarrow> Inl (ErrSyntax t)
                    | Inl Range \<Rightarrow> Inl (ErrRange t)
                    | Inr un \<Rightarrow>
                        if \<not> (c = CHR ''-'') \<and> un \<ge> 2 ^ 63 then Inl (ErrRange t)
                        else if (c = CHR ''-'') \<and> un > 2 ^ 63 then Inl (ErrRange t)
                        else Inr (if (c = CHR ''-'') then - un else un)))"
    unfolding Atoi_def ds_def Cons by (simp only: list.case Let_def)
  from assms A have ne: "ds \<noteq> []" by (cases "ds = []") simp_all
  with assms A have "\<exists>v. parse_uint 0 ds = Inr v"
    by (cases "parse_uint 0 ds") (simp_all split: num_error.splits)
  with ne Cons show ?thesis unfolding ds_def by blast
qed

lemma Atoi_last_digit:
  assumes "Atoi t = Inr N"
  shows "t \<noteq> [] \<and> is_digit (last t)"
proof -
  from Atoi_Inr_parse [OF assms] obtain c cs v where t: "t = c # cs"
    and ne: "(if c = CHR ''+'' \<or> c = CHR ''-'' then cs else t) \<noteq> []"
    and p: "parse_uint 0 (if c = CHR ''+'' \<or> c = CHR ''-'' then cs else t) = Inr v"
    by blast
  define ds where "ds = (if c = CHR ''+'' \<or> c = CHR ''-'' then cs else t)"
  have "list_all is_digit ds"
    using parse_uint_digits p unfolding ds_def by blast
  with ne have "is_digit (last ds)"
    unfolding ds_def by (simp add: list_all_iff)
  moreover have "last ds = last t"
    using ne t by (auto simp: ds_def)
  ultimately show ?thesis using t by simp
qed

lemma Trim_last:
  assumes "s \<noteq> []" and "last s \<noteq> CHR '' ''"
  shows "Trim s \<noteq> [] \<and> last (Trim s) = last s"
proof -
  define u where "u = dropWhile (\<lambda>c. c = CHR '' '') s"
  have "\<exists>ys. s = ys @ u"
    unfolding u_def using takeWhile_dropWhile_id [of "\<lambda>c. c = CHR '' ''" s, symmetric] by blast
  then obtain ys where ys: "s = ys @ u" by blast
  have une: "u \<noteq> []"
  proof
    assume "u = []"
    then have "\<forall>x\<in>set s. x = CHR '' ''"
      unfolding u_def by (simp only: dropWhile_eq_Nil_conv)
    with assms show False using last_in_set by blast
  qed
  with ys have lu: "last u = last s" by simp
  have "hd (rev u) = last u" using une by (simp add: hd_rev)
  then have "dropWhile (\<lambda>c. c = CHR '' '') (rev u) = rev u"
    using une lu assms(2) by (cases "rev u") auto
  then have "Trim s = u" by (simp add: Trim_def u_def)
  with une lu show ?thesis by simp
qed

lemma Atoi_Trim_no_CR:
  assumes "Atoi (Trim l) = Inr N"
  shows "dropCR l = l"
proof (rule ccontr)
  assume "dropCR l \<noteq> l"
  then have l: "l \<noteq> []" "last l = CR"
    by (auto simp: dropCR_def split: if_splits)
  then have "last l \<noteq> CHR '' ''" by (simp add: CR_def)
  with l Trim_last [of l] have "last (Trim l) = CR" by simp
  moreover have "is_digit (last (Trim l))"
    using Atoi_last_digit [OF assms] by simp
  ultimately show False by (simp add: is_digit_def CR_def)
qed

lemma take_drop_split:
  "take k xs @ take (m - length (take k xs)) (drop (length (take k xs)) xs) = take (max k m) xs"
proof (cases "k \<le> length xs")
  case True
  then have "length (take k xs) = k" by simp
  then show ?thesis
    by (cases "k \<le> m") (simp_all add: take_add [symmetric] max_def)
next
  case False
  then show ?thesis by (simp add: max_def)
qed

lemma reader_Read_ReadAll:
  assumes "reader_Read r n = (d, r')"
  shows "d @ ReadAll r' = ReadAll r"
proof (cases r)
  case (FileReader s)
  define rest where "rest = drop (offset s) (content s)"
  have "drop (offset s + length (take n rest)) (content s) = drop (length (take n rest)) rest"
    by (simp add: rest_def add.commute)
  moreover have "take n rest @ drop (length (take n rest)) rest = rest"
    by (cases "n \<le> length rest") (simp_all add: min_def)
  ultimately show ?thesis
    using assms FileReader unfolding rest_def
    by (auto simp: stream_Read_def Let_def)
next
  case (LimitedReader s N)
  show ?thesis
  proof (cases "N \<le> 0")
    case True
    with LimitedReader assms show ?thesis by auto
  next
    case False
    define rest where "rest = drop (offset s) (content s)"
    define k where "k = (if int n > N then nat N else n)"
    have kN: "k \<le> nat N" using False by (auto simp: k_def)
    have dr: "drop (offset s + length (take k rest)) (content s) = drop (length (take k rest)) rest"
      by (simp add: rest_def add.commute)
    have "nat (N - int (length (take k rest))) = nat N - length (take k rest)"
      by simp
    then have "take k rest @ take (nat (N - int (length (take k rest)))) (drop (length (take k rest)) rest)
             = take (nat N) rest"
      using take_drop_split [of k rest "nat N"] kN by (simp add: max_def)
    moreover have "d = take k rest"
      and "r' = LimitedReader (s\<lparr>offset := offset s + length (take k rest)\<rparr>) (N - int (length (take k rest)))"
      using assms LimitedReader False unfolding rest_def k_def
      by (auto simp: stream_Read_def Let_def)
    ultimately show ?thesis
      using LimitedReader dr by (simp add: rest_def)
  qed
qed

lemma read_seq_prefix: "prefix (read_seq r ns) (ReadAll r)"
proof (induction ns arbitrary: r)
  case Nil
  show ?case by simp
next
  case (Cons n ns)
  obtain d r' where rd: "reader_Read r n = (d, r')"
    by (cases "reader_Read r n")
  from Cons.IH [of r'] have "prefix (d @ read_seq r' ns) (d @ ReadAll r')"
    by simp
  with reader_Read_ReadAll [OF rd] rd show ?case
    by simp
qed

lemma Scan_eq:
  "\<exists>n. n \<le> length (drop (offset s) (content s)) \<and>
     Scan s = (s\<lparr>offset := offset s + n\<rparr>, snd (scan_fill 0 (drop (offset s) (content s))))"
proof -
  obtain n tok where sf: "scan_fill 0 (drop (offset s) (content s)) = (n, tok)"
    by (cases "scan_fill 0 (drop (offset s) (content s))")
  have "n \<le> length (drop (offset s) (content s))"
    using scan_fill_read [of 0 "drop (offset s) (content s)"] sf by simp
  then show ?thesis
    using sf by (auto simp: Scan_def)
qed

lemma takeWhile_upto:
  "x \<notin> set xs \<Longrightarrow> takeWhile (\<lambda>c. c \<noteq> x) (xs @ x # ys) = xs"
  by (induction xs) auto

lemma first_line_framed:
  assumes "LF \<notin> set line" and "Atoi (Trim line) = Inr N"
  shows "first_line (line @ [LF] @ rest) = line"
proof -
  have "takeWhile (\<lambda>c. c \<noteq> LF) (line @ [LF] @ rest) = line"
    using assms(1) by (simp add: takeWhile_upto)
  then show ?thesis
    using Atoi_Trim_no_CR [OF assms(2)] by (simp only: first_line_def)
qed

lemma stripEmlx_reader_not_nil: "fst (stripEmlx s) \<noteq> None"
  by (simp add: stripEmlx_def split: prod.splits option.splits sum.splits)

lemma scan_fill_too_long:
  "cap \<le> MaxScanTokenSize \<Longrightarrow> LF \<notin> set (take MaxScanTokenSize data) \<Longrightarrow>
   MaxScanTokenSize \<le> length data \<Longrightarrow> scan_fill cap data = (MaxScanTokenSize, None)"
proof (induction cap data rule: scan_fill.induct)
  case (1 cap data)
  have noLF: "LF \<notin> set (take cap data)"
    using "1.prems"(1,2) set_take_subset_set_take by fastforce
  have long: "\<not> length data < cap" using "1.prems" by simp
  show ?case
  proof (cases "cap \<ge> MaxScanTokenSize")
    case True
    with "1.prems" have "cap = MaxScanTokenSize" by simp
    with noLF long "1.prems"(3) show ?thesis
      by (subst scan_fill.simps) simp
  next
    case False
    have "min (if cap = 0 then startBufSize else 2 * cap) MaxScanTokenSize \<le> MaxScanTokenSize"
      by simp
    from "1.IH" [OF noLF long False this "1.prems"(2,3)] noLF long False show ?thesis
      by (subst scan_fill.simps) simp
  qed
qed

subsection \<open>Stripping a framed stream\<close>

text \<open>
  C2, as stated: for every framed input (a first line that, trimmed of spaces, is the
  decimal length \<open>N\<close>, a newline, \<open>N\<close> message bytes, then any trailer) \<open>stripEmlx\<close>
  returns a reader of exactly the \<open>N\<close> message bytes. This fails when the first line has
  65536 bytes or more (here 65536 spaces of padding before the digit): the line does not fit
  the scanner's buffer of \<open>MaxScanTokenSize\<close> bytes, \<open>Scan\<close> gives up with
  \<open>ErrTooLong\<close>, and \<open>stripEmlx\<close> returns the raw stream and the error
  \<open>couldnt find the first line\<close>.
\<close>

theorem stripEmlx_long_line_counterexample:
  "LF \<notin> set (replicate 65536 (CHR '' '') @ ''5'')
   \<and> Atoi (Trim (replicate 65536 (CHR '' '') @ ''5'')) = Inr 5
   \<and> int (length ''hello'') = 5
   \<and> stripEmlx \<lparr>content = (replicate 65536 (CHR '' '') @ ''5'') @ [LF] @ ''hello'' @ ''trailer'', offset = 0\<rparr>
       = (Some (FileReader \<lparr>content = (replicate 65536 (CHR '' '') @ ''5'') @ [LF] @ ''hello'' @ ''trailer'',
                               offset = 65536\<rparr>), Some ErrNoFirstLine)"
proof -
  let ?data = "(replicate 65536 (CHR '' '') @ ''5'') @ [LF] @ ''hello'' @ ''trailer''"
  have "dropWhile (\<lambda>c. c = CHR '' '') (replicate 65536 (CHR '' '') @ ''5'') = ''5''"
    by (subst dropWhile_append2) auto
  then have t: "Trim (replicate 65536 (CHR '' '') @ ''5'') = ''5''"
    by (simp add: Trim_def)
  have a: "Atoi (Trim (replicate 65536 (CHR '' '') @ ''5'')) = Inr 5"
    unfolding t by (simp add: Atoi_def is_digit_def digit_val_def)
  have "take MaxScanTokenSize ?data = replicate 65536 (CHR '' '')"
    by (simp add: MaxScanTokenSize_def)
  then have "LF \<notin> set (take MaxScanTokenSize ?data)"
    by (simp add: LF_def)
  moreover have "MaxScanTokenSize \<le> length ?data"
    by (simp add: MaxScanTokenSize_def)
  ultimately have "scan_fill 0 ?data = (MaxScanTokenSize, None)"
    using scan_fill_too_long [of 0 ?data] by simp
  then have "stripEmlx \<lparr>content = ?data, offset = 0\<rparr>
       = (Some (FileReader \<lparr>content = ?data, offset = 65536\<rparr>), Some ErrNoFirstLine)"
    by (simp add: stripEmlx_def Scan_def MaxScanTokenSize_def)
  with a show ?thesis by (simp add: LF_def)
qed

text \<open>
  C2, amended: for every stream at offset 0 whose bytes are a first line shorter than
  65536 bytes that (after trimming surrounding spaces) parses as the decimal integer \<open>N\<close>,
  a newline, \<open>N\<close> message bytes and any trailer, \<open>stripEmlx\<close> returns no error and a
  limited reader over the same stream, positioned at offset \<open>len(firstLine) + 1\<close> with
  limit \<open>N\<close>; reading it to the end yields exactly the \<open>N\<close> message bytes, and any
  sequence of reads yields a prefix of them, never a byte of the trailer.
\<close>

theorem stripEmlx_framed:
  assumes c: "content s = line @ [LF] @ msg @ trailer" and o: "offset s = 0"
    and nl: "LF \<notin> set line" and short: "length line < MaxScanTokenSize"
    and num: "Atoi (Trim line) = Inr N" and len: "int (length msg) = N"
  shows "stripEmlx s = (Some (LimitedReader (s\<lparr>offset := length line + 1\<rparr>) N), None)
     \<and> ReadAll (LimitedReader (s\<lparr>offset := length line + 1\<rparr>) N) = msg
     \<and> (\<forall>ns. prefix (read_seq (LimitedReader (s\<lparr>offset := length line + 1\<rparr>) N) ns) msg)"
proof -
  let ?data = "drop (offset s) (content s)"
  have data: "?data = line @ [LF] @ (msg @ trailer)" using c o by simp
  have "LF \<in> set (take MaxScanTokenSize ?data)"
    using short unfolding data by (simp add: take_Cons')
  then have tok: "snd (scan_fill 0 ?data) = Some line"
    using scan_fill_token [of 0 ?data] first_line_framed [OF nl num, of "msg @ trailer"]
    unfolding data by simp
  from Scan_eq [of s] obtain n where "Scan s = (s\<lparr>offset := offset s + n\<rparr>, Some line)"
    using tok by auto
  then have strip: "stripEmlx s = (Some (LimitedReader (s\<lparr>offset := length line + 1\<rparr>) N), None)"
    using num by (simp add: stripEmlx_def)
  have all: "ReadAll (LimitedReader (s\<lparr>offset := length line + 1\<rparr>) N) = msg"
    using c len by auto
  have "\<forall>ns. prefix (read_seq (LimitedReader (s\<lparr>offset := length line + 1\<rparr>) N) ns) msg"
    using read_seq_prefix [of "LimitedReader (s\<lparr>offset := length line + 1\<rparr>) N"] all by simp
  with strip all show ?thesis by simp
qed

theorem stripEmlx_framed_witness:
  "LF \<notin> set ''120'' \<and> length ''120'' < MaxScanTokenSize \<and> Atoi (Trim ''120'') = Inr 120
   \<and> int (length (replicate 120 (CHR ''m''))) = 120
   \<and> stripEmlx \<lparr>content = ''120'' @ [LF] @ replicate 120 (CHR ''m'') @ replicate 40 (CHR ''t''), offset = 0\<rparr>
       = (Some (LimitedReader \<lparr>content = ''120'' @ [LF] @ replicate 120 (CHR ''m'') @ replicate 40 (CHR ''t''),
                                 offset = 4\<rparr> 120), None)
   \<and> ReadAll (LimitedReader \<lparr>content = ''120'' @ [LF] @ replicate 120 (CHR ''m'') @ replicate 40 (CHR ''t''),
                                 offset = 4\<rparr> 120) = replicate 120 (CHR ''m'')"
proof -
  have h: "LF \<notin> set ''120''" "length ''120'' < MaxScanTokenSize" "Atoi (Trim ''120'') = Inr 120"
    "int (length (replicate 120 (CHR ''m''))) = 120"
    by (simp_all add: LF_def MaxScanTokenSize_def Atoi_def Trim_def is_digit_def digit_val_def)
  show ?thesis
    using h stripEmlx_framed [of "\<lparr>content = ''120'' @ [LF] @ replicate 120 (CHR ''m'') @ replicate 40 (CHR ''t''), offset = 0\<rparr>"
      "''120''" "replicate 120 (CHR ''m'')" "replicate 40 (CHR ''t'')" 120, OF _ _ h]
    by simp
qed

text \<open>
  On the error paths the reader returned is the input stream itself, never nil, with the
  read offset where the scanner's buffered reads left it.
\<close>

lemma stripEmlx_fallback:
  assumes "Atoi (Trim (first_line (drop (offset s) (content s)))) = Inl err"
  shows "\<exists>s' e. stripEmlx s = (Some (FileReader s'), Some e)
           \<and> (e = err \<or> e = ErrNoFirstLine)
           \<and> content s' = content s \<and> offset s \<le> offset s'
           \<and> offset s' \<le> offset s + length (drop (offset s) (content s))"
proof -
  let ?data = "drop (offset s) (content s)"
  from Scan_eq [of s] obtain n where n: "n \<le> length ?data"
    and sc: "Scan s = (s\<lparr>offset := offset s + n\<rparr>, snd (scan_fill 0 ?data))"
    by blast
  have "snd (scan_fill 0 ?data) = None \<or> snd (scan_fill 0 ?data) = Some (first_line ?data)"
    using scan_fill_token [of 0 ?data] by (simp split: if_splits)
  then show ?thesis
  proof
    assume "snd (scan_fill 0 ?data) = None"
    with sc n show ?thesis by (simp add: stripEmlx_def)
  next
    assume "snd (scan_fill 0 ?data) = Some (first_line ?data)"
    with sc n assms show ?thesis by (simp add: stripEmlx_def)
  qed
qed

text \<open>
  The scanner fills its buffer before it looks for the line: a stream shorter than the
  initial buffer of 4096 bytes is read to its end by the one call of \<open>Scan\<close>. When the
  first line does not parse, \<open>stripEmlx\<close> returns the stream as the scanner left it, so
  every such stream comes back at its end and reads as empty.
\<close>

lemma scan_fill_short:
  assumes "length data < startBufSize"
  shows "fst (scan_fill 0 data) = length data"
proof -
  have "scan_fill 0 data = scan_fill startBufSize data"
    by (subst scan_fill.simps) (simp add: startBufSize_def MaxScanTokenSize_def)
  moreover have "fst (scan_fill startBufSize data) = length data"
    using assms by (subst scan_fill.simps) simp
  ultimately show ?thesis by simp
qed

lemma stripEmlx_fallback_drained:
  assumes "offset s = 0" and "length (content s) < startBufSize"
    and "Atoi (Trim (first_line (content s))) = Inl err"
  shows "\<exists>e. stripEmlx s = (Some (FileReader (s\<lparr>offset := length (content s)\<rparr>)), Some e)
           \<and> ReadAll (FileReader (s\<lparr>offset := length (content s)\<rparr>)) = []"
proof -
  have n: "fst (scan_fill 0 (content s)) = length (content s)"
    by (rule scan_fill_short [OF assms(2)])
  have "snd (scan_fill 0 (content s)) = None
        \<or> snd (scan_fill 0 (content s)) = Some (first_line (content s))"
    using scan_fill_token [of 0 "content s"] by (simp split: if_splits)
  then show ?thesis
  proof
    assume "snd (scan_fill 0 (content s)) = None"
    with n assms(1) show ?thesis
      by (simp add: stripEmlx_def Scan_def split_beta)
  next
    assume "snd (scan_fill 0 (content s)) = Some (first_line (content s))"
    with n assms(1,3) show ?thesis
      by (simp add: stripEmlx_def Scan_def split_beta)
  qed
qed

text \<open>
  C7. The claim: when the first line's numeric field does not parse, the caller gets the
  error and the original, unstripped stream as a fallback reader. The code returns the
  error and a non-nil reader, but not the original stream: on the success path it
  repositions \<open>r\<close> with \<open>Seek\<close>, on the error paths it returns \<open>r\<close> as the scanner left
  it. For the nine bytes \<open>abc\<close>, line feed, \<open>hello\<close> the scanner has read all nine, the
  reader returned stands at offset 9 and reads as empty, where the original stream reads
  as the nine bytes.
\<close>

theorem stripEmlx_fallback_reader_at_end:
  "stripEmlx \<lparr>content = CHR ''a'' # CHR ''b'' # CHR ''c'' # LF # ''hello'', offset = 0\<rparr>
     = (Some (FileReader \<lparr>content = CHR ''a'' # CHR ''b'' # CHR ''c'' # LF # ''hello'', offset = 9\<rparr>),
        Some (ErrSyntax ''abc''))
   \<and> ReadAll (FileReader \<lparr>content = CHR ''a'' # CHR ''b'' # CHR ''c'' # LF # ''hello'', offset = 9\<rparr>) = []
   \<and> ReadAll (FileReader \<lparr>content = CHR ''a'' # CHR ''b'' # CHR ''c'' # LF # ''hello'', offset = 0\<rparr>)
       = CHR ''a'' # CHR ''b'' # CHR ''c'' # LF # ''hello''"
proof -
  have b: "scan_fill 0 (CHR ''a'' # CHR ''b'' # CHR ''c'' # LF # ''hello'') = (9, Some ''abc'')"
    apply (subst scan_fill.simps)
    apply (simp add: LF_def MaxScanTokenSize_def startBufSize_def)
    apply (subst scan_fill.simps)
    apply (simp add: LF_def CR_def dropCR_def)
    done
  then show ?thesis
    by (simp add: stripEmlx_def Scan_def Trim_def Atoi_def is_digit_def)
qed

section \<open>Properties of Message.Open\<close>

lemma emlx_path_example:
  "emlx_path \<lparr>pathWithoutExtension = ''/m/0447630''\<rparr> = ''/m/0447630.emlx''"
  "partial_emlx_path \<lparr>pathWithoutExtension = ''/m/0447630''\<rparr> = ''/m/0447630.partial.emlx''"
  by (simp_all add: emlx_path_def partial_emlx_path_def path_Join_def path_Clean_def clean_step_def)

lemma stripEmlx_example:
  "stripEmlx \<lparr>content = CHR ''5'' # LF # ''hello'', offset = 0\<rparr>
     = (Some (LimitedReader \<lparr>content = CHR ''5'' # LF # ''hello'', offset = 2\<rparr> 5), None)"
proof -
  have "scan_fill 0 (CHR ''5'' # LF # ''hello'') = (7, Some ''5'')"
    apply (subst scan_fill.simps)
    apply (simp add: LF_def MaxScanTokenSize_def startBufSize_def)
    apply (subst scan_fill.simps)
    apply (simp add: LF_def CR_def dropCR_def)
    done
  then show ?thesis
    by (simp add: stripEmlx_def Scan_def Trim_def Atoi_def is_digit_def digit_val_def)
qed

text \<open>
  C9. Opening a message always tries the \<open>.emlx\<close> path first. The \<open>.partial.emlx\<close>
  path is tried exactly when that first open fails with a file-does-not-exist error, and
  then decides the result. If the first open succeeds its file is stripped and returned;
  if it fails with any other error, that error is returned at once with a nil reader and
  nothing else is opened.
\<close>

theorem Message_Open_fallback:
  "hd (snd (Message_Open fs m)) = emlx_path m
   \<and> (snd (Message_Open fs m) = [emlx_path m, partial_emlx_path m])
       = (\<exists>e. fs (emlx_path m) = Inl e \<and> os_IsNotExist e)
   \<and> (snd (Message_Open fs m) = [emlx_path m])
       = (\<not> (\<exists>e. fs (emlx_path m) = Inl e \<and> os_IsNotExist e))
   \<and> (\<forall>bytes. fs (emlx_path m) = Inr bytes \<longrightarrow>
         fst (Message_Open fs m) = stripEmlx \<lparr>content = bytes, offset = 0\<rparr>)
   \<and> (\<forall>e. fs (emlx_path m) = Inl e \<and> \<not> os_IsNotExist e \<longrightarrow>
         Message_Open fs m = ((None, Some e), [emlx_path m]))
   \<and> (\<forall>e. fs (emlx_path m) = Inl e \<and> os_IsNotExist e \<longrightarrow>
         fst (Message_Open fs m) =
           (case fs (partial_emlx_path m) of
              Inr bytes \<Rightarrow> stripEmlx \<lparr>content = bytes, offset = 0\<rparr>
            | Inl e2 \<Rightarrow> (None, Some e2)))"
  by (auto simp: Message_Open_def os_Open_def split: sum.splits)

theorem Message_Open_fallback_witness:
  "Message_Open (\<lambda>p. if p = ''/m/0447630.emlx'' then Inr (CHR ''5'' # LF # ''hello'') else Inl (ErrNotExist p))
       \<lparr>pathWithoutExtension = ''/m/0447630''\<rparr>
     = ((Some (LimitedReader \<lparr>content = CHR ''5'' # LF # ''hello'', offset = 2\<rparr> 5), None),
        [''/m/0447630.emlx''])
   \<and> Message_Open (\<lambda>p. if p = ''/m/0447630.emlx'' then Inl (ErrIO ''permission denied'')
                        else Inr (CHR ''5'' # LF # ''hello''))
       \<lparr>pathWithoutExtension = ''/m/0447630''\<rparr>
     = ((None, Some (ErrIO ''permission denied'')), [''/m/0447630.emlx''])
   \<and> Message_Open (\<lambda>p. if p = ''/m/0447630.partial.emlx'' then Inr (CHR ''5'' # LF # ''hello'')
                        else Inl (ErrNotExist p))
       \<lparr>pathWithoutExtension = ''/m/0447630''\<rparr>
     = ((Some (LimitedReader \<lparr>content = CHR ''5'' # LF # ''hello'', offset = 2\<rparr> 5), None),
        [''/m/0447630.emlx'', ''/m/0447630.partial.emlx''])"
proof -
  let ?m = "\<lparr>pathWithoutExtension = ''/m/0447630''\<rparr>"
  let ?fa = "\<lambda>p. if p = ''/m/0447630.emlx'' then Inr (CHR ''5'' # LF # ''hello'') else Inl (ErrNotExist p)"
  let ?fb = "\<lambda>p. if p = ''/m/0447630.emlx'' then Inl (ErrIO ''permission denied'')
                        else Inr (CHR ''5'' # LF # ''hello'')"
  let ?fc = "\<lambda>p. if p = ''/m/0447630.partial.emlx'' then Inr (CHR ''5'' # LF # ''hello'')
                        else Inl (ErrNotExist p)"
  have a: "?fa (emlx_path ?m) = Inr (CHR ''5'' # LF # ''hello'')"
    by (simp add: emlx_path_example)
  have "fst (Message_Open ?fa ?m) = stripEmlx \<lparr>content = CHR ''5'' # LF # ''hello'', offset = 0\<rparr>"
    using Message_Open_fallback [of ?fa ?m] a by blast
  moreover have "snd (Message_Open ?fa ?m) = [emlx_path ?m]"
    using Message_Open_fallback [of ?fa ?m] a by auto
  ultimately have A: "Message_Open ?fa ?m
     = ((Some (LimitedReader \<lparr>content = CHR ''5'' # LF # ''hello'', offset = 2\<rparr> 5), None),
        [''/m/0447630.emlx''])"
    by (simp add: prod_eq_iff stripEmlx_example emlx_path_example)
  have b: "?fb (emlx_path ?m) = Inl (ErrIO ''permission denied'')
           \<and> \<not> os_IsNotExist (ErrIO ''permission denied'')"
    by (simp add: emlx_path_example os_IsNotExist_def)
  have "Message_Open ?fb ?m = ((None, Some (ErrIO ''permission denied'')), [emlx_path ?m])"
    using Message_Open_fallback [of ?fb ?m] b by blast
  then have B: "Message_Open ?fb ?m
     = ((None, Some (ErrIO ''permission denied'')), [''/m/0447630.emlx''])"
    by (simp add: emlx_path_example)
  have c: "?fc (emlx_path ?m) = Inl (ErrNotExist ''/m/0447630.emlx'')
           \<and> os_IsNotExist (ErrNotExist ''/m/0447630.emlx'')"
    by (simp add: emlx_path_example os_IsNotExist_def)
  have "fst (Message_Open ?fc ?m) =
           (case ?fc (partial_emlx_path ?m) of
              Inr bytes \<Rightarrow> stripEmlx \<lparr>content = bytes, offset = 0\<rparr>
            | Inl e2 \<Rightarrow> (None, Some e2))"
    using Message_Open_fallback [of ?fc ?m] c by blast
  moreover have "snd (Message_Open ?fc ?m) = [emlx_path ?m, partial_emlx_path ?m]"
    using Message_Open_fallback [of ?fc ?m] c by blast
  ultimately have C: "Message_Open ?fc ?m
     = ((Some (LimitedReader \<lparr>content = CHR ''5'' # LF # ''hello'', offset = 2\<rparr> 5), None),
        [''/m/0447630.emlx'', ''/m/0447630.partial.emlx''])"
    by (simp add: prod_eq_iff stripEmlx_example emlx_path_example)
  from A B C show ?thesis by blast
qed

section \<open>Properties of Mailboxes.Query\<close>

lemma FormatInt_samples:
  "FormatInt 447630 = ''447630''" "FormatInt 447631 = ''447631''" "FormatInt 447632 = ''447632''"
  "FormatInt 447633 = ''447633''" "FormatInt 447634 = ''447634''" "FormatInt 12 = ''12''"
  by (simp_all add: FormatInt_def digits_of.simps)

lemma getMessages_five:
  "getMessages (db (sample_Mailboxes five_messages)) =
     [\<lparr>j_id = 447632, j_url = Some ''imap://U/INBOX'', j_date_received = 300\<rparr>,
      \<lparr>j_id = 447630, j_url = Some ''imap://U/INBOX'', j_date_received = 500\<rparr>,
      \<lparr>j_id = 447634, j_url = Some ''imap://U/INBOX'', j_date_received = 100\<rparr>,
      \<lparr>j_id = 447631, j_url = Some ''imap://U/INBOX'', j_date_received = 400\<rparr>,
      \<lparr>j_id = 447633, j_url = Some ''imap://U/INBOX'', j_date_received = 200\<rparr>]"
  by (simp add: getMessages_def sample_Mailboxes_def five_messages_def)

lemma row_Message_inbox:
  "row_Message imap_Parse (sample_Mailboxes msgs) \<lparr>j_id = i, j_url = Some ''imap://U/INBOX'', j_date_received = d\<rparr>
     = (case emlPathFromROWID (FormatInt i) of
          Inl e \<Rightarrow> Inl e
        | Inr p \<Rightarrow> Inr \<lparr>pathWithoutExtension = path_Join [''/V10/U/INBOX.mbox/D/Data'', p]\<rparr>)"
  by (simp add: row_Message_def rows_Scan_def imap_Parse_def sample_Mailboxes_def)

lemma path_Join_samples:
  "path_Join [''/V10/U/INBOX.mbox/D/Data'', ''7/4/4/Messages/447630''] = ''/V10/U/INBOX.mbox/D/Data/7/4/4/Messages/447630''"
  "path_Join [''/V10/U/INBOX.mbox/D/Data'', ''7/4/4/Messages/447631''] = ''/V10/U/INBOX.mbox/D/Data/7/4/4/Messages/447631''"
  "path_Join [''/V10/U/INBOX.mbox/D/Data'', ''7/4/4/Messages/447632''] = ''/V10/U/INBOX.mbox/D/Data/7/4/4/Messages/447632''"
  by (simp_all add: path_Join_def path_Clean_def clean_step_def)

lemma fetch_five_3:
  "fetch_rows ((Query (sample_Mailboxes five_messages) (no_filter 3))\<lparr>batchCount := 0\<rparr>) =
     Inr [\<lparr>j_id = 447630, j_url = Some ''imap://U/INBOX'', j_date_received = 500\<rparr>,
          \<lparr>j_id = 447631, j_url = Some ''imap://U/INBOX'', j_date_received = 400\<rparr>,
          \<lparr>j_id = 447632, j_url = Some ''imap://U/INBOX'', j_date_received = 300\<rparr>]"
  by (simp add: fetch_rows_def variables_of_def Query_def no_filter_def IsEmpty_def db_Query_def
        getMessages_five wrap64_def)
     (simp add: sample_Mailboxes_def)

lemma invoke_closure_unchanged: "fst (invoke parse q) = q"
  by (simp add: invoke_def)

lemma rows_loop_append:
  "rows_loop parse mboxes rows acc = Inr msgs \<Longrightarrow>
   \<exists>new. msgs = acc @ new \<and> list_all2 (\<lambda>r msg. row_Message parse mboxes r = Inr msg) rows new"
proof (induction rows arbitrary: acc)
  case Nil
  then show ?case by simp
next
  case (Cons r rs)
  from Cons.prems obtain msg where r: "row_Message parse mboxes r = Inr msg"
    and rest: "rows_loop parse mboxes rs (acc @ [msg]) = Inr msgs"
    by (auto split: sum.splits)
  from Cons.IH [OF rest] obtain new where "msgs = (acc @ [msg]) @ new"
    and "list_all2 (\<lambda>r msg. row_Message parse mboxes r = Inr msg) rs new"
    by blast
  with r have "msgs = acc @ (msg # new) \<and>
      list_all2 (\<lambda>r msg. row_Message parse mboxes r = Inr msg) (r # rs) (msg # new)"
    by simp
  then show ?case by blast
qed

lemma rows_loop_first_failure:
  "list_all (\<lambda>r. \<exists>msg. row_Message parse mboxes r = Inr msg) pre \<Longrightarrow>
   row_Message parse mboxes r = Inl err \<Longrightarrow>
   rows_loop parse mboxes (pre @ r # post) acc = Inl err"
proof (induction pre arbitrary: acc)
  case Nil
  then show ?case by simp
next
  case (Cons p pre)
  then show ?case by auto
qed

lemma sort_desc:
  "sorted_wrt (\<lambda>a b. j_date_received a \<ge> j_date_received b) (sort_key (\<lambda>r. - j_date_received r) rows)"
proof -
  have "sorted (map (\<lambda>r. - j_date_received r) (sort_key (\<lambda>r. - j_date_received r) rows))"
    by (rule sorted_sort_key)
  then show ?thesis
    by (simp add: sorted_map)
qed

lemma fetch_rows_sorted:
  assumes "fetch_rows ((Query mboxes spec)\<lparr>batchCount := k\<rparr>) = Inr rows"
  shows "sorted_wrt (\<lambda>a b. j_date_received a \<ge> j_date_received b) rows"
proof -
  note sorted_facts = sort_desc sorted_wrt_take [OF sorted_wrt_drop [OF sort_desc]]
    sorted_wrt_drop [OF sort_desc]
  show ?thesis
  proof (cases "IsEmpty (QueryMailbox spec)")
    case True
    with assms show ?thesis
      by (auto simp: fetch_rows_def variables_of_def Query_def db_Query_def Let_def sorted_facts
            split: if_splits)
  next
    case False
    then obtain u where u: "URL (QueryMailbox spec) = Inr u"
      by (auto simp: IsEmpty_def URL_def)
    with False assms show ?thesis
      by (auto simp: fetch_rows_def variables_of_def Query_def db_Query_def Let_def sorted_facts
            split: if_splits)
  qed
qed

lemmas query_eval = fetch_rows_def variables_of_def Query_def no_filter_def IsEmpty_def
  db_Query_def getMessages_def sample_Mailboxes_def wrap64_def

lemma row_Message_null:
  "row_Message parse mboxes \<lparr>j_id = i, j_url = None, j_date_received = d\<rparr> = Inl ErrScanNull"
  by (simp add: row_Message_def rows_Scan_def)

lemma first_batch:
  "snd (invoke imap_Parse ((Query (sample_Mailboxes five_messages) (no_filter 3))\<lparr>batchCount := 0\<rparr>))
   = Inr [\<lparr>pathWithoutExtension = ''/V10/U/INBOX.mbox/D/Data/7/4/4/Messages/447630''\<rparr>,
      \<lparr>pathWithoutExtension = ''/V10/U/INBOX.mbox/D/Data/7/4/4/Messages/447631''\<rparr>,
      \<lparr>pathWithoutExtension = ''/V10/U/INBOX.mbox/D/Data/7/4/4/Messages/447632''\<rparr>]"
proof -
  have "q_m ((Query (sample_Mailboxes five_messages) (no_filter 3))\<lparr>batchCount := 0\<rparr>)
          = sample_Mailboxes five_messages"
    by (simp add: Query_def)
  then show ?thesis
    by (simp add: invoke_def fetch_five_3 row_Message_inbox FormatInt_samples emlPathFromROWID_def
          string_of_byte_def path_Join_samples)
qed

text \<open>
  C1. The claim: with a positive batch size, the \<open>n\<close>-th call of the closure fetches the
  rows from offset \<open>batchSize * n\<close> on, so that two calls with batch size 3 on five
  rows return three results and then the remaining two. The code does not do this: the
  offset is \<open>batchCount * mq.BatchResults\<close>, and nothing ever assigns to \<open>batchCount\<close>,
  so it is 0 in every call. On five stored messages the first call returns the three
  newest, and the second call returns the same three again.
\<close>

theorem Query_second_call_repeats_first_batch:
  "length (getMessages (db (sample_Mailboxes five_messages))) = 5
   \<and> snd (invoke imap_Parse (Query (sample_Mailboxes five_messages) (no_filter 3)))
     = Inr [\<lparr>pathWithoutExtension = ''/V10/U/INBOX.mbox/D/Data/7/4/4/Messages/447630''\<rparr>,
            \<lparr>pathWithoutExtension = ''/V10/U/INBOX.mbox/D/Data/7/4/4/Messages/447631''\<rparr>,
            \<lparr>pathWithoutExtension = ''/V10/U/INBOX.mbox/D/Data/7/4/4/Messages/447632''\<rparr>]
   \<and> snd (invoke imap_Parse (fst (invoke imap_Parse
            (Query (sample_Mailboxes five_messages) (no_filter 3)))))
     = Inr [\<lparr>pathWithoutExtension = ''/V10/U/INBOX.mbox/D/Data/7/4/4/Messages/447630''\<rparr>,
            \<lparr>pathWithoutExtension = ''/V10/U/INBOX.mbox/D/Data/7/4/4/Messages/447631''\<rparr>,
            \<lparr>pathWithoutExtension = ''/V10/U/INBOX.mbox/D/Data/7/4/4/Messages/447632''\<rparr>]"
proof -
  have q: "Query (sample_Mailboxes five_messages) (no_filter 3)
      = (Query (sample_Mailboxes five_messages) (no_filter 3))\<lparr>batchCount := 0\<rparr>"
    by (simp add: Query_def)
  have "length (getMessages (db (sample_Mailboxes five_messages))) = 5"
    by (simp add: getMessages_five)
  moreover note first_batch [folded q]
  ultimately show ?thesis
    by (simp add: invoke_closure_unchanged)
qed

text \<open>
  C6, as stated: if any result row's url has no entry in the path map, the call returns
  the unmatched-mailbox-path error. The rows are converted in order and the first row
  that fails decides the outcome, so this fails when an earlier row fails another way.
  In the first store the newest row has the row id 12, too short for
  \<open>emlPathFromROWID\<close>, and the call panics before it reaches the unresolved row; in the
  second the newest row has a \<open>NULL\<close> url, and the call returns the error of
  \<open>rows.Scan\<close>.
\<close>

theorem Query_earlier_failure_counterexample:
  "fetch_rows (Query (sample_Mailboxes
       [\<lparr>msg_ROWID = 12, msg_date_received = 500, msg_mailbox = Some 1\<rparr>,
        \<lparr>msg_ROWID = 447631, msg_date_received = 400, msg_mailbox = Some 2\<rparr>]) (no_filter 0))
     = Inr [\<lparr>j_id = 12, j_url = Some ''imap://U/INBOX'', j_date_received = 500\<rparr>,
            \<lparr>j_id = 447631, j_url = Some ''imap://U/Gone'', j_date_received = 400\<rparr>]
   \<and> imap_Parse ''imap://U/Gone'' = Some (''U'', ''/Gone'')
   \<and> url2path (sample_Mailboxes []) (''U'' @ ''/Gone'') = None
   \<and> snd (invoke imap_Parse (Query (sample_Mailboxes
       [\<lparr>msg_ROWID = 12, msg_date_received = 500, msg_mailbox = Some 1\<rparr>,
        \<lparr>msg_ROWID = 447631, msg_date_received = 400, msg_mailbox = Some 2\<rparr>]) (no_filter 0)))
     = Inl (PanicIndexOutOfRange 2 2)
   \<and> fetch_rows (Query (sample_Mailboxes
       [\<lparr>msg_ROWID = 447630, msg_date_received = 500, msg_mailbox = None\<rparr>,
        \<lparr>msg_ROWID = 447631, msg_date_received = 400, msg_mailbox = Some 2\<rparr>]) (no_filter 0))
     = Inr [\<lparr>j_id = 447630, j_url = None, j_date_received = 500\<rparr>,
            \<lparr>j_id = 447631, j_url = Some ''imap://U/Gone'', j_date_received = 400\<rparr>]
   \<and> snd (invoke imap_Parse (Query (sample_Mailboxes
       [\<lparr>msg_ROWID = 447630, msg_date_received = 500, msg_mailbox = None\<rparr>,
        \<lparr>msg_ROWID = 447631, msg_date_received = 400, msg_mailbox = Some 2\<rparr>]) (no_filter 0)))
     = Inl ErrScanNull"
proof -
  let ?A = "sample_Mailboxes
       [\<lparr>msg_ROWID = 12, msg_date_received = 500, msg_mailbox = Some 1\<rparr>,
        \<lparr>msg_ROWID = 447631, msg_date_received = 400, msg_mailbox = Some 2\<rparr>]"
  let ?B = "sample_Mailboxes
       [\<lparr>msg_ROWID = 447630, msg_date_received = 500, msg_mailbox = None\<rparr>,
        \<lparr>msg_ROWID = 447631, msg_date_received = 400, msg_mailbox = Some 2\<rparr>]"
  have fa: "fetch_rows (Query ?A (no_filter 0))
     = Inr [\<lparr>j_id = 12, j_url = Some ''imap://U/INBOX'', j_date_received = 500\<rparr>,
            \<lparr>j_id = 447631, j_url = Some ''imap://U/Gone'', j_date_received = 400\<rparr>]"
    by (simp add: query_eval)
  have fb: "fetch_rows (Query ?B (no_filter 0))
     = Inr [\<lparr>j_id = 447630, j_url = None, j_date_received = 500\<rparr>,
            \<lparr>j_id = 447631, j_url = Some ''imap://U/Gone'', j_date_received = 400\<rparr>]"
    by (simp add: query_eval)
  have ma: "q_m (Query ?A (no_filter 0)) = ?A" and mb: "q_m (Query ?B (no_filter 0)) = ?B"
    by (simp_all add: Query_def)
  have ra: "snd (invoke imap_Parse (Query ?A (no_filter 0))) = Inl (PanicIndexOutOfRange 2 2)"
    by (simp add: invoke_def fa ma row_Message_inbox FormatInt_samples emlPathFromROWID_def)
  have rb: "snd (invoke imap_Parse (Query ?B (no_filter 0))) = Inl ErrScanNull"
    by (simp add: invoke_def fb mb row_Message_null)
  have "imap_Parse ''imap://U/Gone'' = Some (''U'', ''/Gone'')"
    by (simp add: imap_Parse_def)
  moreover have "url2path (sample_Mailboxes []) (''U'' @ ''/Gone'') = None"
    by (simp add: sample_Mailboxes_def)
  ultimately show ?thesis
    using fa fb ra rb by simp
qed

text \<open>
  C6, amended: if a result row's url parses to a host and path with no entry in the path
  map, and every row before it in the result is converted to a message, then the call
  returns the error \<open>unmatched mailbox path\<close> for that host and path, and no list of
  messages, whatever follows the row: the row is not skipped and nothing partial is
  returned.
\<close>

theorem Query_unmatched_is_fatal:
  assumes "fetch_rows q = Inr (pre @ r # post)"
    and "list_all (\<lambda>r'. \<exists>msg. row_Message parse (q_m q) r' = Inr msg) pre"
    and "j_url r = Some u" and "parse u = Some (host, path)"
    and "url2path (q_m q) (host @ path) = None"
  shows "snd (invoke parse q) = Inl (ErrUnmatchedMailboxPath (host @ path))"
proof -
  have "row_Message parse (q_m q) r = Inl (ErrUnmatchedMailboxPath (host @ path))"
    using assms(3-5) by (simp add: row_Message_def rows_Scan_def)
  with assms(2) have "rows_loop parse (q_m q) (pre @ r # post) [] = Inl (ErrUnmatchedMailboxPath (host @ path))"
    by (rule rows_loop_first_failure)
  with assms(1) show ?thesis by (simp add: invoke_def)
qed

theorem Query_unmatched_is_fatal_witness:
  "fetch_rows (Query (sample_Mailboxes
       [\<lparr>msg_ROWID = 447630, msg_date_received = 500, msg_mailbox = Some 1\<rparr>,
        \<lparr>msg_ROWID = 447631, msg_date_received = 400, msg_mailbox = Some 2\<rparr>,
        \<lparr>msg_ROWID = 447632, msg_date_received = 300, msg_mailbox = Some 1\<rparr>]) (no_filter 0))
     = Inr ([\<lparr>j_id = 447630, j_url = Some ''imap://U/INBOX'', j_date_received = 500\<rparr>]
            @ \<lparr>j_id = 447631, j_url = Some ''imap://U/Gone'', j_date_received = 400\<rparr>
            # [\<lparr>j_id = 447632, j_url = Some ''imap://U/INBOX'', j_date_received = 300\<rparr>])
   \<and> imap_Parse ''imap://U/Gone'' = Some (''U'', ''/Gone'')
   \<and> snd (invoke imap_Parse (Query (sample_Mailboxes
       [\<lparr>msg_ROWID = 447630, msg_date_received = 500, msg_mailbox = Some 1\<rparr>,
        \<lparr>msg_ROWID = 447631, msg_date_received = 400, msg_mailbox = Some 2\<rparr>,
        \<lparr>msg_ROWID = 447632, msg_date_received = 300, msg_mailbox = Some 1\<rparr>]) (no_filter 0)))
     = Inl (ErrUnmatchedMailboxPath ''U/Gone'')"
proof -
  let ?S = "sample_Mailboxes
       [\<lparr>msg_ROWID = 447630, msg_date_received = 500, msg_mailbox = Some 1\<rparr>,
        \<lparr>msg_ROWID = 447631, msg_date_received = 400, msg_mailbox = Some 2\<rparr>,
        \<lparr>msg_ROWID = 447632, msg_date_received = 300, msg_mailbox = Some 1\<rparr>]"
  let ?q = "Query ?S (no_filter 0)"
  have f: "fetch_rows ?q
     = Inr ([\<lparr>j_id = 447630, j_url = Some ''imap://U/INBOX'', j_date_received = 500\<rparr>]
            @ \<lparr>j_id = 447631, j_url = Some ''imap://U/Gone'', j_date_received = 400\<rparr>
            # [\<lparr>j_id = 447632, j_url = Some ''imap://U/INBOX'', j_date_received = 300\<rparr>])"
    by (simp add: query_eval)
  have m: "q_m ?q = ?S" by (simp add: Query_def)
  have pre: "list_all (\<lambda>r'. \<exists>msg. row_Message imap_Parse (q_m ?q) r' = Inr msg)
               [\<lparr>j_id = 447630, j_url = Some ''imap://U/INBOX'', j_date_received = 500\<rparr>]"
    by (simp add: m row_Message_inbox FormatInt_samples emlPathFromROWID_def)
  have u: "j_url \<lparr>j_id = 447631, j_url = Some ''imap://U/Gone'', j_date_received = 400\<rparr>
             = Some ''imap://U/Gone''"
    by simp
  have p: "imap_Parse ''imap://U/Gone'' = Some (''U'', ''/Gone'')"
    by (simp add: imap_Parse_def)
  have miss: "url2path (q_m ?q) (''U'' @ ''/Gone'') = None"
    unfolding m by (simp add: sample_Mailboxes_def)
  from Query_unmatched_is_fatal [OF f pre u p miss] f p show ?thesis
    by simp
qed

text \<open>
  C8. For every query specification (with or without a mailbox, with or without a
  batch size) and whatever the value of \<open>batchCount\<close>, a call that returns messages
  returns them in the order of the fetched rows, one message per row, and the fetched rows
  are in descending order of \<open>date_received\<close>.
\<close>

theorem Query_results_descending:
  assumes "snd (invoke parse ((Query mboxes spec)\<lparr>batchCount := k\<rparr>)) = Inr msgs"
  shows "\<exists>rows. fetch_rows ((Query mboxes spec)\<lparr>batchCount := k\<rparr>) = Inr rows
           \<and> sorted_wrt (\<lambda>a b. j_date_received a \<ge> j_date_received b) rows
           \<and> list_all2 (\<lambda>r msg. row_Message parse mboxes r = Inr msg) rows msgs"
proof -
  let ?q = "(Query mboxes spec)\<lparr>batchCount := k\<rparr>"
  from assms obtain rows where f: "fetch_rows ?q = Inr rows"
    and l: "rows_loop parse (q_m ?q) rows [] = Inr msgs"
    by (auto simp: invoke_def split: sum.splits)
  have "q_m ?q = mboxes" by (simp add: Query_def)
  with l rows_loop_append [of parse mboxes rows "[]" msgs]
  have "list_all2 (\<lambda>r msg. row_Message parse mboxes r = Inr msg) rows msgs"
    by auto
  with f fetch_rows_sorted [OF f] show ?thesis by blast
qed

theorem Query_results_descending_witness:
  "snd (invoke imap_Parse ((Query (sample_Mailboxes five_messages) (no_filter 3))\<lparr>batchCount := 0\<rparr>))
     = Inr [\<lparr>pathWithoutExtension = ''/V10/U/INBOX.mbox/D/Data/7/4/4/Messages/447630''\<rparr>,
            \<lparr>pathWithoutExtension = ''/V10/U/INBOX.mbox/D/Data/7/4/4/Messages/447631''\<rparr>,
            \<lparr>pathWithoutExtension = ''/V10/U/INBOX.mbox/D/Data/7/4/4/Messages/447632''\<rparr>]
   \<and> (\<exists>rows. fetch_rows ((Query (sample_Mailboxes five_messages) (no_filter 3))\<lparr>batchCount := 0\<rparr>) = Inr rows
           \<and> sorted_wrt (\<lambda>a b. j_date_received a \<ge> j_date_received b) rows
           \<and> list_all2 (\<lambda>r msg. row_Message imap_Parse (sample_Mailboxes five_messages) r = Inr msg) rows
                [\<lparr>pathWithoutExtension = ''/V10/U/INBOX.mbox/D/Data/7/4/4/Messages/447630''\<rparr>,
                 \<lparr>pathWithoutExtension = ''/V10/U/INBOX.mbox/D/Data/7/4/4/Messages/447631''\<rparr>,
                 \<lparr>pathWithoutExtension = ''/V10/U/INBOX.mbox/D/Data/7/4/4/Messages/447632''\<rparr>])"
  using Query_results_descending [OF first_batch] first_batch by blast

section \<open>Properties of the path resolver\<close>

subsection \<open>path.Clean and path.Join on clean paths\<close>












subsection \<open>strings.Replace on paths\<close>










subsection \<open>The walk\<close>


lemma walkDir_Data: "walkDir rootPath st path ''Data'' t = (st, Continue)"
  by (cases t) (simp_all add: walker_def)


lemma walker_file: "walker rootPath st path name False plist None = (st, Continue)"
  by (simp add: walker_def)







subsection \<open>Paths of the sample trees\<close>

lemmas join_eval = path_Join_def path_Clean_def clean_step_def

lemma pj_h:
  "path_Join [''/h/Library/Mail/V10/'', ''X''] = ''/h/Library/Mail/V10/X''"
  "path_Join [''/h/Library/Mail/V10/X'', ''Info.plist''] = ''/h/Library/Mail/V10/X/Info.plist''"
  "path_Join [''/h/Library/Mail/V10/X'', ''Y.mbox''] = ''/h/Library/Mail/V10/X/Y.mbox''"
  "path_Join [''/h/Library/Mail/V10/X/Y.mbox'', ''Data''] = ''/h/Library/Mail/V10/X/Y.mbox/Data''"
  by (simp_all add: join_eval)

lemma ra_h:
  "remove_all ''/Y.mbox'' ''/h/Library/Mail/V10/X/Y.mbox'' = ''/h/Library/Mail/V10/X''"
  "remove_all ''/h/Library/Mail/V10/'' ''/h/Library/Mail/V10/X'' = ''X''"
  "remove_all ''.mbox'' ''X'' = ''X''"
  by (simp_all add: remove_all.simps)

lemma pj_A:
  "path_Join [''/h/Library/Mail/V10/'', ''A''] = ''/h/Library/Mail/V10/A''"
  "path_Join [''/h/Library/Mail/V10/A'', ''A''] = ''/h/Library/Mail/V10/A/A''"
  "path_Join [''/h/Library/Mail/V10/A'', ''Info.plist''] = ''/h/Library/Mail/V10/A/Info.plist''"
  "path_Join [''/h/Library/Mail/V10/X'', ''n''] = ''/h/Library/Mail/V10/X/n''"
  "path_Join [''/h/Library/Mail/V10/X/n'', ''n''] = ''/h/Library/Mail/V10/X/n/n''"
  by (simp_all add: join_eval)

lemma ra_A:
  "remove_all ''/A'' ''/h/Library/Mail/V10/A/A'' = ''/h/Library/Mail/V10''"
  "remove_all ''/n'' ''/h/Library/Mail/V10/X/n'' = ''/h/Library/Mail/V10/X''"
  "remove_all ''/n'' ''/h/Library/Mail/V10/X/n/n'' = ''/h/Library/Mail/V10/X''"
  by (simp_all add: remove_all.simps)

subsection \<open>What the walk records\<close>




text \<open>
  C4. The claim: an entry is recorded exactly when the visited directory is the direct
  child of a marked directory. The code tests
  \<open>strings.Replace(path, "/" + d.Name(), "", -1) == p\<close>, which removes every occurrence of
  the name, not the last path segment only. In the first tree \<open>A/A\<close> is the direct child
  of the marked \<open>A\<close>, and both segments are removed: no entry is recorded at all. In the
  second tree \<open>X/n/n\<close> is a grandchild of the marked \<open>X\<close>; removing both \<open>/n\<close> leaves
  the path of \<open>X\<close>, so an entry is recorded for it and replaces the entry of the direct
  child \<open>X/n\<close>.
\<close>

theorem gatherMboxPaths_repeated_name:
  "gatherMboxPaths ''/h''
     (Some (Dir [(''A'', Dir [(''A'', Dir [(''Data'', Dir [])]), (''Info.plist'', File)])]))
     = (Map.empty, None)
   \<and> gatherMboxPaths ''/h''
     (Some (Dir [(''X'', Dir [(''Info.plist'', File), (''n'', Dir [(''n'', Dir [])])])]))
     = ([''X'' \<mapsto> ''/h/Library/Mail/V10/X/n/n/Data''], None)"
  by (simp add: gatherMboxPaths_def V10_def walker_def has_plist_def filePathToURL_def
        pj_h pj_A ra_h ra_A)

end
